theory Spec2Isabelle
  imports Complex_Main
begin

section \<open>The triangular distribution of pyro/distributions/triangular.py\<close>

text \<open>
  The module defines one class, \<open>Triangular\<close>, whose methods are compositions of
  elementwise tensor operations of the torch library. The embedding has three layers:
  \<^item> numbers: the values a float can take, with the special values of IEEE arithmetic
    (infinities and not-a-number) and exact arithmetic on the finite ones;
  \<^item> tensors: a shape and the element at each index, results of torch expressions
    that either are a tensor or raise, and the broadcasting operators;
  \<^item> the class: its instance record, the constructor and the methods, written operator
    by operator as in the source.
  The operators \<open>+\<close>, \<open>-\<close>, \<open>*\<close>, \<open>/\<close> on numbers are exact on finite operands. They
  are enough for the statements that rest on which branch is selected and on the
  special values. Statements about the numerical value of a result are made about
  \<open>rsample_f32\<close> and \<open>cdf_f32\<close>, the same methods with each arithmetic result rounded
  to binary32, the default dtype of torch. The sign of zero is not modelled.
\<close>

subsection \<open>Errors\<close>

datatype error =
    ValueError string
  | TypeError string
  | RuntimeError string
  | NotImplementedError

subsection \<open>Numbers\<close>

datatype fl = NaN | NInf | Fin real | PInf

instantiation fl :: "{uminus, plus, minus, times, inverse, ord}"
begin

fun uminus_fl :: "fl \<Rightarrow> fl" where
  "uminus_fl NaN = NaN"
| "uminus_fl NInf = PInf"
| "uminus_fl (Fin a) = Fin (- a)"
| "uminus_fl PInf = NInf"

fun plus_fl :: "fl \<Rightarrow> fl \<Rightarrow> fl" where
  "plus_fl NaN y = NaN"
| "plus_fl x NaN = NaN"
| "plus_fl (Fin a) (Fin b) = Fin (a + b)"
| "plus_fl PInf NInf = NaN"
| "plus_fl NInf PInf = NaN"
| "plus_fl PInf y = PInf"
| "plus_fl x PInf = PInf"
| "plus_fl NInf y = NInf"
| "plus_fl x NInf = NInf"

definition minus_fl :: "fl \<Rightarrow> fl \<Rightarrow> fl" where
  "minus_fl x y = x + (- y)"

fun times_fl :: "fl \<Rightarrow> fl \<Rightarrow> fl" where
  "times_fl NaN y = NaN"
| "times_fl x NaN = NaN"
| "times_fl (Fin a) (Fin b) = Fin (a * b)"
| "times_fl (Fin a) PInf = (if a = 0 then NaN else if 0 < a then PInf else NInf)"
| "times_fl (Fin a) NInf = (if a = 0 then NaN else if 0 < a then NInf else PInf)"
| "times_fl PInf (Fin b) = (if b = 0 then NaN else if 0 < b then PInf else NInf)"
| "times_fl NInf (Fin b) = (if b = 0 then NaN else if 0 < b then NInf else PInf)"
| "times_fl PInf PInf = PInf"
| "times_fl NInf NInf = PInf"
| "times_fl PInf NInf = NInf"
| "times_fl NInf PInf = NInf"

fun divide_fl :: "fl \<Rightarrow> fl \<Rightarrow> fl" where
  "divide_fl NaN y = NaN"
| "divide_fl x NaN = NaN"
| "divide_fl (Fin a) (Fin b) =
     (if b = 0 then (if a = 0 then NaN else if 0 < a then PInf else NInf) else Fin (a / b))"
| "divide_fl (Fin a) y = Fin 0"
| "divide_fl PInf (Fin b) = (if 0 \<le> b then PInf else NInf)"
| "divide_fl NInf (Fin b) = (if 0 \<le> b then NInf else PInf)"
| "divide_fl x y = NaN"

fun inverse_fl :: "fl \<Rightarrow> fl" where
  "inverse_fl NaN = NaN"
| "inverse_fl (Fin b) = (if b = 0 then PInf else Fin (1 / b))"
| "inverse_fl y = Fin 0"

text \<open>The comparisons of IEEE arithmetic: every comparison with \<open>NaN\<close> is false.\<close>

fun less_fl :: "fl \<Rightarrow> fl \<Rightarrow> bool" where
  "less_fl NaN y = False"
| "less_fl x NaN = False"
| "less_fl (Fin a) (Fin b) = (a < b)"
| "less_fl x NInf = False"
| "less_fl NInf y = True"
| "less_fl PInf y = False"
| "less_fl x PInf = True"

fun less_eq_fl :: "fl \<Rightarrow> fl \<Rightarrow> bool" where
  "less_eq_fl NaN y = False"
| "less_eq_fl x NaN = False"
| "less_eq_fl (Fin a) (Fin b) = (a \<le> b)"
| "less_eq_fl NInf y = True"
| "less_eq_fl x PInf = True"
| "less_eq_fl x y = False"

instance ..

end

text \<open>\<open>value == value\<close>, which is false for \<open>NaN\<close> only.\<close>

fun fl_eq :: "fl \<Rightarrow> fl \<Rightarrow> bool" where
  "fl_eq NaN y = False"
| "fl_eq x NaN = False"
| "fl_eq x y = (x = y)"

fun fl_log :: "fl \<Rightarrow> fl" where
  "fl_log NaN = NaN"
| "fl_log NInf = NaN"
| "fl_log (Fin a) = (if a < 0 then NaN else if a = 0 then NInf else Fin (ln a))"
| "fl_log PInf = PInf"

fun fl_sqrt :: "fl \<Rightarrow> fl" where
  "fl_sqrt NaN = NaN"
| "fl_sqrt NInf = NaN"
| "fl_sqrt (Fin a) = (if a < 0 then NaN else Fin (sqrt a))"
| "fl_sqrt PInf = PInf"

fun fl_pow :: "fl \<Rightarrow> nat \<Rightarrow> fl" where
  "fl_pow x 0 = Fin 1"
| "fl_pow x (Suc n) = x * fl_pow x n"

fun is_finite :: "fl \<Rightarrow> bool" where
  "is_finite (Fin a) = True"
| "is_finite x = False"

subsection \<open>Tensors and broadcasting\<close>

text \<open>
  A tensor is a shape and the element at each index (a list of positions, one for each
  dimension). Only the elements at the indices of the shape are meaningful. A view of
  a tensor, as \<open>Tensor.expand\<close> returns, is the same elements read through another
  index function.
\<close>

record 'a tensor =
  shape :: "nat list"
  elt :: "nat list \<Rightarrow> 'a"

text \<open>The value of a torch expression: a tensor, or the exception it raised.\<close>

datatype 'a tval = Raise error | Ok "'a tensor"

text \<open>The indices of a shape, in row-major order.\<close>

fun indices :: "nat list \<Rightarrow> nat list list" where
  "indices [] = [[]]"
| "indices (d # ds) = concat (map (\<lambda>i. map ((#) i) (indices ds)) [0..<d])"

definition valid_index :: "nat list \<Rightarrow> nat list \<Rightarrow> bool" where
  "valid_index s idx = list_all2 (<) idx s"

text \<open>
  Broadcasting aligns two shapes at their last dimension; two sizes are compatible
  when they are equal or one of them is 1. The functions with suffix \<open>_rev\<close> work on
  reversed shapes and indices.
\<close>

fun broadcast_rev :: "nat list \<Rightarrow> nat list \<Rightarrow> nat list option" where
  "broadcast_rev [] ys = Some ys"
| "broadcast_rev (x # xs) [] = Some (x # xs)"
| "broadcast_rev (x # xs) (y # ys) =
     (if x = y \<or> y = 1 then map_option ((#) x) (broadcast_rev xs ys)
      else if x = 1 then map_option ((#) y) (broadcast_rev xs ys)
      else None)"

definition broadcast_shape :: "nat list \<Rightarrow> nat list \<Rightarrow> nat list option" where
  "broadcast_shape a b = map_option rev (broadcast_rev (rev a) (rev b))"

text \<open>
  The index of a tensor of shape \<open>s\<close> that an index of a broadcast result reads: the
  last \<open>length s\<close> positions, with position 0 in every dimension of size 1.
\<close>

fun proj_rev :: "nat list \<Rightarrow> nat list \<Rightarrow> nat list" where
  "proj_rev (d # ds) (i # is) = (if d = 1 then 0 else i) # proj_rev ds is"
| "proj_rev ds is = []"

definition bproj :: "nat list \<Rightarrow> nat list \<Rightarrow> nat list" where
  "bproj s idx = rev (proj_rev (rev s) (rev idx))"

definition expand_to :: "'a tensor \<Rightarrow> nat list \<Rightarrow> 'a tensor" where
  "expand_to t s = \<lparr>shape = s, elt = (\<lambda>i. elt t (bproj (shape t) i))\<rparr>"

text \<open>
  \<open>Tensor.expand(sizes)\<close>: the tensor may get new leading dimensions, and each of its
  own dimensions keeps its size or has size 1. The size -1 of torch ("keep this
  dimension") is not modelled: a size is a natural number.
\<close>

fun expandable_rev :: "nat list \<Rightarrow> nat list \<Rightarrow> bool" where
  "expandable_rev [] ns = True"
| "expandable_rev (d # ds) [] = False"
| "expandable_rev (d # ds) (n # ns) = ((d = n \<or> d = 1) \<and> expandable_rev ds ns)"

definition expandable :: "nat list \<Rightarrow> nat list \<Rightarrow> bool" where
  "expandable s sizes = expandable_rev (rev s) (rev sizes)"

definition tensor_expand :: "'a tensor \<Rightarrow> nat list \<Rightarrow> 'a tval" where
  "tensor_expand t sizes =
     (if expandable (shape t) sizes then Ok (expand_to t sizes)
      else Raise (RuntimeError ''The expanded size of the tensor must match the existing size''))"

text \<open>
  Elementwise operators. The operands are evaluated from left to right, so the first
  exception wins; operands whose shapes do not broadcast raise.
\<close>

definition pointwise :: "('a \<Rightarrow> 'b) \<Rightarrow> 'a tval \<Rightarrow> 'b tval" where
  "pointwise f x =
     (case x of Raise e \<Rightarrow> Raise e
      | Ok a \<Rightarrow> Ok \<lparr>shape = shape a, elt = (\<lambda>i. f (elt a i))\<rparr>)"

definition broadcast2 :: "('a \<Rightarrow> 'b \<Rightarrow> 'c) \<Rightarrow> 'a tval \<Rightarrow> 'b tval \<Rightarrow> 'c tval" where
  "broadcast2 f x y =
     (case x of Raise e \<Rightarrow> Raise e
      | Ok a \<Rightarrow>
         (case y of Raise e \<Rightarrow> Raise e
          | Ok b \<Rightarrow>
             (case broadcast_shape (shape a) (shape b) of
                None \<Rightarrow> Raise (RuntimeError ''The size of tensor a must match the size of tensor b'')
              | Some s \<Rightarrow>
                 Ok \<lparr>shape = s,
                     elt = (\<lambda>i. f (elt a (bproj (shape a) i)) (elt b (bproj (shape b) i)))\<rparr>)))"

instantiation tval :: (plus) plus
begin
definition plus_tval :: "'a tval \<Rightarrow> 'a tval \<Rightarrow> 'a tval" where
  "plus_tval x y = broadcast2 (+) x y"
instance ..
end

instantiation tval :: (minus) minus
begin
definition minus_tval :: "'a tval \<Rightarrow> 'a tval \<Rightarrow> 'a tval" where
  "minus_tval x y = broadcast2 (-) x y"
instance ..
end

instantiation tval :: (times) times
begin
definition times_tval :: "'a tval \<Rightarrow> 'a tval \<Rightarrow> 'a tval" where
  "times_tval x y = broadcast2 (*) x y"
instance ..
end

instantiation tval :: (inverse) inverse
begin
definition inverse_tval :: "'a tval \<Rightarrow> 'a tval" where
  "inverse_tval x = pointwise inverse x"
definition divide_tval :: "'a tval \<Rightarrow> 'a tval \<Rightarrow> 'a tval" where
  "divide_tval x y = broadcast2 (/) x y"
instance ..
end

text \<open>The comparison operators \<open><\<close>, \<open><=\<close>, \<open>>\<close>, \<open>>=\<close> (\<open>torch.lt\<close>, \<open>torch.le\<close>, ...).\<close>

definition torch_lt :: "fl tval \<Rightarrow> fl tval \<Rightarrow> bool tval" where
  "torch_lt x y = broadcast2 (\<lambda>a b. a < b) x y"

definition torch_le :: "fl tval \<Rightarrow> fl tval \<Rightarrow> bool tval" where
  "torch_le x y = broadcast2 (\<lambda>a b. a \<le> b) x y"

definition torch_gt :: "fl tval \<Rightarrow> fl tval \<Rightarrow> bool tval" where
  "torch_gt x y = broadcast2 (\<lambda>a b. b < a) x y"

definition torch_ge :: "fl tval \<Rightarrow> fl tval \<Rightarrow> bool tval" where
  "torch_ge x y = broadcast2 (\<lambda>a b. b \<le> a) x y"

text \<open>The operators \<open>&\<close> and \<open>|\<close> on tensors of truth values.\<close>

definition logical_and :: "bool tval \<Rightarrow> bool tval \<Rightarrow> bool tval" where
  "logical_and x y = broadcast2 (\<and>) x y"

definition logical_or :: "bool tval \<Rightarrow> bool tval \<Rightarrow> bool tval" where
  "logical_or x y = broadcast2 (\<or>) x y"

text \<open>
  \<open>torch.where(condition, x, y)\<close>: both \<open>x\<close> and \<open>y\<close> are evaluated in full, and each
  element of the result is selected by the condition at that element.
\<close>

definition torch_where :: "bool tval \<Rightarrow> 'a tval \<Rightarrow> 'a tval \<Rightarrow> 'a tval" where
  "torch_where c x y =
     (case c of Raise e \<Rightarrow> Raise e
      | Ok tc \<Rightarrow>
         (case x of Raise e \<Rightarrow> Raise e
          | Ok a \<Rightarrow>
             (case y of Raise e \<Rightarrow> Raise e
              | Ok b \<Rightarrow>
                 (case broadcast_shape (shape tc) (shape a) of
                    None \<Rightarrow> Raise (RuntimeError ''The size of tensor a must match the size of tensor b'')
                  | Some s1 \<Rightarrow>
                     (case broadcast_shape s1 (shape b) of
                        None \<Rightarrow> Raise (RuntimeError ''The size of tensor a must match the size of tensor b'')
                      | Some s \<Rightarrow>
                         Ok \<lparr>shape = s,
                             elt = (\<lambda>i. if elt tc (bproj (shape tc) i)
                                        then elt a (bproj (shape a) i)
                                        else elt b (bproj (shape b) i))\<rparr>)))))"

text \<open>\<open>.all()\<close> of a tensor of truth values.\<close>

definition tensor_all :: "bool tval \<Rightarrow> error + bool" where
  "tensor_all x =
     (case x of Raise e \<Rightarrow> Inl e
      | Ok t \<Rightarrow> Inr (list_all (elt t) (indices (shape t))))"

text \<open>
  \<open>torch.tensor(x)\<close> of a Python float is a tensor with no dimension. A Python float
  that is an operand of an arithmetic operator with a tensor behaves as such a tensor.
\<close>

definition torch_tensor :: "'a \<Rightarrow> 'a tval" where
  "torch_tensor x = Ok \<lparr>shape = [], elt = (\<lambda>i. x)\<rparr>"

definition number :: "'a \<Rightarrow> 'a tval" where
  "number x = Ok \<lparr>shape = [], elt = (\<lambda>i. x)\<rparr>"

definition ones_like :: "fl tval \<Rightarrow> fl tval" where
  "ones_like x = pointwise (\<lambda>a. Fin 1) x"

definition zeros_like :: "fl tval \<Rightarrow> fl tval" where
  "zeros_like x = pointwise (\<lambda>a. Fin 0) x"

definition torch_sqrt :: "fl tval \<Rightarrow> fl tval" where
  "torch_sqrt x = pointwise fl_sqrt x"

definition tensor_pow :: "fl tval \<Rightarrow> nat \<Rightarrow> fl tval" where
  "tensor_pow x n = pointwise (\<lambda>a. fl_pow a n) x"

text \<open>The method \<open>.log()\<close> of a tensor.\<close>

definition tensor_log :: "fl tval \<Rightarrow> fl tval" where
  "tensor_log x = pointwise fl_log x"

text \<open>
  The function \<open>torch.log\<close>. The source applies it to tensors and, in \<open>entropy\<close>, to
  the Python float \<open>2.\<close>; its argument must be a tensor, and a Python float is
  rejected with a \<open>TypeError\<close>.
\<close>

datatype pyarg = PyFloat fl | PyTensor "fl tval"

fun torch_log :: "pyarg \<Rightarrow> fl tval" where
  "torch_log (PyFloat x) = Raise (TypeError ''log(): argument input (position 1) must be Tensor, not float'')"
| "torch_log (PyTensor t) = pointwise fl_log t"

subsection \<open>Python values of the class\<close>

text \<open>
  A constructor argument is a Python number or a tensor. The argument \<open>validate_args\<close>
  and the attribute \<open>_validate_args\<close> hold \<open>None\<close> or a truth value.
\<close>

datatype param = Number fl | Tensor "fl tensor"

datatype pyflag = PyNone | PyBool bool

fun truthy :: "pyflag \<Rightarrow> bool" where
  "truthy PyNone = False"
| "truthy (PyBool b) = b"

fun is_Number :: "param \<Rightarrow> bool" where
  "is_Number (Number x) = True"
| "is_Number (Tensor t) = False"

text \<open>
  An instance: the three parameters, the shapes kept by the base class, and the entry
  \<open>_validate_args\<close> of the instance's own \<open>__dict__\<close>, which is absent (\<open>None\<close> here)
  until something assigns the attribute on the instance.
\<close>

record triangular =
  low :: "fl tensor"
  high :: "fl tensor"
  peak :: "fl tensor"
  batch_shape :: "nat list"
  event_shape :: "nat list"
  dict_validate_args :: "pyflag option"

text \<open>
  Reading \<open>self._validate_args\<close>: the instance's entry when there is one, otherwise
  the attribute of the class \<open>torch.distributions.Distribution\<close>, a truth value that
  \<open>Distribution.set_default_validate_args\<close> (called by \<open>pyro.enable_validation\<close>) sets.
  That default is the first argument (\<open>dflt\<close>) of every function that reads the attribute.
\<close>

definition get_validate_args :: "bool \<Rightarrow> triangular \<Rightarrow> pyflag" where
  "get_validate_args dflt self =
     (case dict_validate_args self of None \<Rightarrow> PyBool dflt | Some v \<Rightarrow> v)"

text \<open>\<open>self.__dict__.get('_validate_args')\<close>: \<open>None\<close> when the instance has no entry.\<close>

definition dict_get_validate_args :: "triangular \<Rightarrow> pyflag" where
  "dict_get_validate_args self =
     (case dict_validate_args self of None \<Rightarrow> PyNone | Some v \<Rightarrow> v)"

subsection \<open>What the class takes from torch\<close>

text \<open>
  \<open>torch.distributions.utils.broadcast_all\<close>: numbers become tensors with no
  dimension, and all values are expanded to their common broadcast shape.
\<close>

fun as_tensor :: "param \<Rightarrow> fl tensor" where
  "as_tensor (Number x) = \<lparr>shape = [], elt = (\<lambda>i. x)\<rparr>"
| "as_tensor (Tensor t) = t"

definition broadcast_all ::
  "param \<Rightarrow> param \<Rightarrow> param \<Rightarrow> error + (fl tensor \<times> fl tensor \<times> fl tensor)" where
  "broadcast_all a b c =
     (case broadcast_shape (shape (as_tensor a)) (shape (as_tensor b)) of
        None \<Rightarrow> Inl (RuntimeError ''The size of tensor a must match the size of tensor b'')
      | Some s1 \<Rightarrow>
         (case broadcast_shape s1 (shape (as_tensor c)) of
            None \<Rightarrow> Inl (RuntimeError ''The size of tensor a must match the size of tensor b'')
          | Some s \<Rightarrow>
             Inr (expand_to (as_tensor a) s, expand_to (as_tensor b) s,
                  expand_to (as_tensor c) s)))"

text \<open>
  \<open>Distribution.__init__(batch_shape, event_shape, validate_args)\<close> of the base class:
  it stores the shapes, assigns \<open>_validate_args\<close> on the instance when the argument is
  not \<open>None\<close>, and when validation is then enabled checks every parameter whose
  constraint in \<open>arg_constraints\<close> is not \<open>dependent\<close>. For this class that is \<open>low\<close>
  alone, with \<open>constraints.real\<close>, whose check is \<open>value == value\<close>.
\<close>

definition constraints_real_check :: "fl tval \<Rightarrow> bool tval" where
  "constraints_real_check x = broadcast2 fl_eq x x"

definition Distribution_init ::
  "bool \<Rightarrow> triangular \<Rightarrow> nat list \<Rightarrow> nat list \<Rightarrow> pyflag \<Rightarrow> error + triangular" where
  "Distribution_init dflt self bs es validate_args =
     (let self = self\<lparr>batch_shape := bs, event_shape := es\<rparr>;
          self = (if validate_args \<noteq> PyNone
                  then self\<lparr>dict_validate_args := Some validate_args\<rparr> else self)
      in if truthy (get_validate_args dflt self)
         then (case tensor_all (constraints_real_check (Ok (low self))) of
                 Inl e \<Rightarrow> Inl e
               | Inr ok \<Rightarrow>
                  if \<not> ok then Inl (ValueError ''The parameter low has invalid values'')
                  else Inr self)
         else Inr self)"

text \<open>\<open>Distribution._extended_shape(sample_shape)\<close>.\<close>

definition extended_shape :: "triangular \<Rightarrow> nat list \<Rightarrow> nat list" where
  "extended_shape self sample_shape = sample_shape @ batch_shape self @ event_shape self"

text \<open>
  \<open>Uniform(0, 1).rsample(shape)\<close> returns a tensor of the given shape of independent
  draws. The draws are an argument of the model: \<open>rand\<close> gives the draw at each index.
\<close>

definition uniform_rsample :: "(nat list \<Rightarrow> fl) \<Rightarrow> nat list \<Rightarrow> fl tval" where
  "uniform_rsample rand shp = Ok \<lparr>shape = shp, elt = rand\<rparr>"

subsection \<open>The class Triangular\<close>

text \<open>\<open>Triangular.__init__(low, high, peak, validate_args=None)\<close>.\<close>

definition Triangular_init ::
  "bool \<Rightarrow> param \<Rightarrow> param \<Rightarrow> param \<Rightarrow> pyflag \<Rightarrow> error + triangular" where
  "Triangular_init dflt low_arg high_arg peak_arg validate_args =
     (case broadcast_all low_arg high_arg peak_arg of
        Inl e \<Rightarrow> Inl e
      | Inr (l, h, p) \<Rightarrow>
         (let self = \<lparr>low = l, high = h, peak = p, batch_shape = [], event_shape = [],
                      dict_validate_args = None\<rparr>;
              bs = (if is_Number low_arg \<and> is_Number high_arg \<and> is_Number peak_arg
                    then [] else shape (low self))
          in case Distribution_init dflt self bs [] validate_args of
               Inl e \<Rightarrow> Inl e
             | Inr self \<Rightarrow>
                if truthy (get_validate_args dflt self) then
                  (case tensor_all (torch_lt (Ok (low self)) (Ok (high self))) of
                     Inl e \<Rightarrow> Inl e
                   | Inr lt_all \<Rightarrow>
                      if \<not> lt_all
                      then Inl (ValueError ''Triangular is not defined when low >= high'')
                      else
                       (case tensor_all (torch_le (Ok (low self)) (Ok (peak self))) of
                          Inl e \<Rightarrow> Inl e
                        | Inr le_all \<Rightarrow>
                           if \<not> le_all
                           then Inl (ValueError ''Triangular is not defined when peak < low'')
                           else
                            (case tensor_all (torch_le (Ok (peak self)) (Ok (high self))) of
                               Inl e \<Rightarrow> Inl e
                             | Inr le_all' \<Rightarrow>
                                if \<not> le_all'
                                then Inl (ValueError ''Triangular is not defined when peak > high'')
                                else Inr self)))
                else Inr self))"


text \<open>\<open>Triangular.log_prob(value)\<close>. The constant \<open>1e-6\<close> is the real number \<open>1/10^6\<close>.\<close>

definition log_prob :: "triangular \<Rightarrow> fl tensor \<Rightarrow> fl tval" where
  "log_prob self v =
     (let value = Ok v;
          interval_length = Ok (high self) - Ok (low self);
          inside_interval =
            torch_where
              (logical_and (torch_ge value (Ok (low self))) (torch_le value (Ok (peak self))))
              (tensor_log (torch_tensor (Fin 2)) + torch_log (PyTensor (value - Ok (low self))) -
                 torch_log (PyTensor interval_length) -
                 torch_log (PyTensor (Ok (peak self) - Ok (low self))))
              (tensor_log (torch_tensor (Fin 2)) + torch_log (PyTensor (Ok (high self) - value)) -
                 torch_log (PyTensor interval_length) -
                 torch_log (PyTensor (Ok (high self) - Ok (peak self))))
      in torch_where
           (logical_or (torch_lt value (Ok (low self))) (torch_gt value (Ok (high self))))
           (torch_log (PyTensor (ones_like value * number (Fin (1 / 1000000)))))
           inside_interval)"

text \<open>\<open>Triangular.cdf(value)\<close>.\<close>

definition cdf :: "triangular \<Rightarrow> fl tensor \<Rightarrow> fl tval" where
  "cdf self v =
     (let value = Ok v;
          interval_length = Ok (high self) - Ok (low self);
          inside_interval =
            torch_where
              (logical_and (torch_gt value (Ok (low self))) (torch_le value (Ok (peak self))))
              (tensor_pow (value - Ok (low self)) 2 /
                 (interval_length * (Ok (peak self) - Ok (low self))))
              (torch_tensor (Fin 1) -
                 tensor_pow (Ok (high self) - value) 2 /
                   (interval_length * (Ok (high self) - Ok (peak self))));
          below_low = torch_where (torch_le value (Ok (low self))) (zeros_like value) inside_interval
      in torch_where (torch_ge value (Ok (high self))) (ones_like value) below_low)"

text \<open>
  The property \<open>Triangular.entropy\<close>. A \<open>lazy_property\<close> runs the body at the first
  access and stores the value it returns; an access that raises stores nothing.
\<close>

definition entropy :: "triangular \<Rightarrow> fl tval" where
  "entropy self =
     number (Fin (1 / 2)) - torch_log (PyFloat (Fin 2)) +
       torch_log (PyTensor (Ok (high self) - Ok (low self)))"

text \<open>
  \<open>Triangular.expand(batch_shape)\<close>. The method \<open>expand\<close> of the base class is not in
  this file of the repository; it is the argument \<open>super_expand\<close>, which returns a
  value of its own or raises.
\<close>

definition expand ::
  "(triangular \<Rightarrow> nat list \<Rightarrow> error + 'b) \<Rightarrow> bool \<Rightarrow> triangular \<Rightarrow> nat list \<Rightarrow>
     error + ('b + triangular)" where
  "expand super_expand dflt self bs =
     (case super_expand self bs of
        Inr r \<Rightarrow> Inr (Inl r)
      | Inl NotImplementedError \<Rightarrow>
         (case tensor_expand (low self) bs of
            Raise e \<Rightarrow> Inl e
          | Ok l \<Rightarrow>
             (case tensor_expand (high self) bs of
                Raise e \<Rightarrow> Inl e
              | Ok h \<Rightarrow>
                 (case tensor_expand (peak self) bs of
                    Raise e \<Rightarrow> Inl e
                  | Ok p \<Rightarrow>
                     (case Triangular_init dflt (Tensor l) (Tensor h) (Tensor p) (PyBool False) of
                        Inl e \<Rightarrow> Inl e
                      | Inr result \<Rightarrow>
                         Inr (Inr (result\<lparr>dict_validate_args :=
                                            Some (dict_get_validate_args self)\<rparr>))))))
      | Inl e \<Rightarrow> Inl e)"

subsection \<open>The methods at one element\<close>

text \<open>
  Every operator in the bodies of \<open>rsample\<close>, \<open>log_prob\<close> and \<open>cdf\<close> is elementwise.
  The three functions below are those bodies read at a single element, with
  \<open>torch.where\<close> as a conditional; the later selection is tested first, as it decides
  the result. Section \<open>Elementwise characterisation\<close> proves that each method
  computes its function at every element.
\<close>

definition rsample_elem :: "fl \<Rightarrow> fl \<Rightarrow> fl \<Rightarrow> fl \<Rightarrow> fl" where
  "rsample_elem l h p u =
     (if u < (p - l) / (h - l) then l + fl_sqrt (u * (h - l) * (p - l))
      else h - fl_sqrt ((Fin 1 - u) * (h - l) * (h - p)))"

definition log_prob_elem :: "fl \<Rightarrow> fl \<Rightarrow> fl \<Rightarrow> fl \<Rightarrow> fl" where
  "log_prob_elem l h p x =
     (if x < l \<or> h < x then fl_log (Fin 1 * Fin (1 / 1000000))
      else if l \<le> x \<and> x \<le> p
      then fl_log (Fin 2) + fl_log (x - l) - fl_log (h - l) - fl_log (p - l)
      else fl_log (Fin 2) + fl_log (h - x) - fl_log (h - l) - fl_log (h - p))"

definition cdf_elem :: "fl \<Rightarrow> fl \<Rightarrow> fl \<Rightarrow> fl \<Rightarrow> fl" where
  "cdf_elem l h p x =
     (if h \<le> x then Fin 1
      else if x \<le> l then Fin 0
      else if l < x \<and> x \<le> p then fl_pow (x - l) 2 / ((h - l) * (p - l))
      else Fin 1 - fl_pow (h - x) 2 / ((h - l) * (h - p)))"

subsection \<open>Instances and their elements\<close>

text \<open>
  The constructor gives the three parameters the batch shape and an empty event
  shape; a valid parameterization moreover satisfies the three order constraints at
  every index of the batch shape.
\<close>

definition well_formed :: "triangular \<Rightarrow> bool" where
  "well_formed d \<longleftrightarrow>
     shape (low d) = batch_shape d \<and> shape (high d) = batch_shape d \<and>
     shape (peak d) = batch_shape d \<and> event_shape d = []"

definition valid_params :: "triangular \<Rightarrow> bool" where
  "valid_params d \<longleftrightarrow>
     well_formed d \<and>
     list_all (\<lambda>i. elt (low d) i < elt (high d) i \<and> elt (low d) i \<le> elt (peak d) i \<and>
                   elt (peak d) i \<le> elt (high d) i) (indices (batch_shape d))"

text \<open>
  Validation is enabled when \<open>self._validate_args\<close> is true after the constructor of
  the base class has run: the argument \<open>validate_args\<close>, or the default of the class
  when the argument is \<open>None\<close>.
\<close>

definition validation_enabled :: "bool \<Rightarrow> pyflag \<Rightarrow> bool" where
  "validation_enabled dflt validate_args =
     truthy (case validate_args of PyNone \<Rightarrow> PyBool dflt | PyBool b \<Rightarrow> PyBool b)"

text \<open>
  The parameters and the argument that the element at index \<open>i\<close> of a result is
  computed from: broadcasting reads them at the projection of \<open>i\<close>.
\<close>

definition low_at :: "triangular \<Rightarrow> nat list \<Rightarrow> fl" where
  "low_at d i = elt (low d) (bproj (batch_shape d) i)"

definition high_at :: "triangular \<Rightarrow> nat list \<Rightarrow> fl" where
  "high_at d i = elt (high d) (bproj (batch_shape d) i)"

definition peak_at :: "triangular \<Rightarrow> nat list \<Rightarrow> fl" where
  "peak_at d i = elt (peak d) (bproj (batch_shape d) i)"

definition value_at :: "'a tensor \<Rightarrow> nat list \<Rightarrow> 'a" where
  "value_at v i = elt v (bproj (shape v) i)"

text \<open>
  The instance that \<open>Triangular(l, h, p)\<close> builds from three Python floats when no
  \<open>validate_args\<close> is given and the constructor returns.
\<close>

definition scalar_triangular :: "real \<Rightarrow> real \<Rightarrow> real \<Rightarrow> triangular" where
  "scalar_triangular l h p =
     \<lparr>low = as_tensor (Number (Fin l)), high = as_tensor (Number (Fin h)),
      peak = as_tensor (Number (Fin p)), batch_shape = [], event_shape = [],
      dict_validate_args = None\<rparr>"

subsection \<open>Binary32 arithmetic\<close>

text \<open>
  The default dtype of torch is \<open>float32\<close>: a tensor built from Python floats, and the
  draws of \<open>Uniform(0, 1)\<close>, hold binary32 numbers, and every arithmetic operation
  returns the exact result rounded to the nearest binary32 number, ties to the even
  significand. The operators on \<open>fl\<close> above compute the exact result; the functions
  of this subsection round it. A binary32 number has a significand of 24 bits and an
  exponent of at least -126, below which the numbers are subnormal; a result that
  rounds to magnitude \<open>2^128\<close> or more is an infinity.
\<close>

definition round_half_even :: "real \<Rightarrow> int" where
  "round_half_even y =
     (let f = \<lfloor>y\<rfloor>
      in if y - of_int f < 1 / 2 then f
         else if 1 / 2 < y - of_int f then f + 1
         else if even f then f else f + 1)"

text \<open>The exponent of the binade of \<open>x\<close>, and the subnormal exponent below it.\<close>

definition f32_exponent :: "real \<Rightarrow> int" where
  "f32_exponent x = max \<lfloor>log 2 \<bar>x\<bar>\<rfloor> (- 126)"

text \<open>Rounding with an unbounded exponent range, and rounding to binary32.\<close>

definition round_real :: "real \<Rightarrow> real" where
  "round_real x =
     (if x = 0 then 0
      else sgn x * of_int (round_half_even (\<bar>x\<bar> / 2 powi (f32_exponent x - 23))) *
           2 powi (f32_exponent x - 23))"

fun round_f32 :: "fl \<Rightarrow> fl" where
  "round_f32 (Fin x) =
     (if 2 ^ 128 \<le> \<bar>round_real x\<bar> then (if 0 < x then PInf else NInf)
      else Fin (round_real x))"
| "round_f32 x = x"

text \<open>
  The operations of a binary32 tensor at one element. \<open>x ** 2\<close> is the correctly
  rounded square, as is the product \<open>x * x\<close> that torch computes for it.
\<close>

definition add_f32 :: "fl \<Rightarrow> fl \<Rightarrow> fl" where
  "add_f32 a b = round_f32 (a + b)"

definition sub_f32 :: "fl \<Rightarrow> fl \<Rightarrow> fl" where
  "sub_f32 a b = round_f32 (a - b)"

definition mul_f32 :: "fl \<Rightarrow> fl \<Rightarrow> fl" where
  "mul_f32 a b = round_f32 (a * b)"

definition div_f32 :: "fl \<Rightarrow> fl \<Rightarrow> fl" where
  "div_f32 a b = round_f32 (a / b)"

definition sqrt_f32 :: "fl \<Rightarrow> fl" where
  "sqrt_f32 a = round_f32 (fl_sqrt a)"

definition pow_f32 :: "fl \<Rightarrow> nat \<Rightarrow> fl" where
  "pow_f32 a n = round_f32 (fl_pow a n)"

text \<open>The elements of a binary32 tensor are the values that rounding leaves unchanged.\<close>

definition representable_f32 :: "fl \<Rightarrow> bool" where
  "representable_f32 x \<longleftrightarrow> round_f32 x = x"

subsection \<open>The methods on binary32 tensors\<close>

text \<open>
  \<open>rsample\<close> and \<open>cdf\<close> once more, with the same operators in the same order and
  every arithmetic result rounded to binary32. Comparisons, \<open>torch.where\<close>,
  \<open>zeros_like\<close> and \<open>ones_like\<close> are exact and are the functions used above.
\<close>

definition tensor_add_f32 :: "fl tval \<Rightarrow> fl tval \<Rightarrow> fl tval" where
  "tensor_add_f32 x y = broadcast2 add_f32 x y"

definition tensor_sub_f32 :: "fl tval \<Rightarrow> fl tval \<Rightarrow> fl tval" where
  "tensor_sub_f32 x y = broadcast2 sub_f32 x y"

definition tensor_mul_f32 :: "fl tval \<Rightarrow> fl tval \<Rightarrow> fl tval" where
  "tensor_mul_f32 x y = broadcast2 mul_f32 x y"

definition tensor_div_f32 :: "fl tval \<Rightarrow> fl tval \<Rightarrow> fl tval" where
  "tensor_div_f32 x y = broadcast2 div_f32 x y"

definition torch_sqrt_f32 :: "fl tval \<Rightarrow> fl tval" where
  "torch_sqrt_f32 x = pointwise sqrt_f32 x"

definition tensor_pow_f32 :: "fl tval \<Rightarrow> nat \<Rightarrow> fl tval" where
  "tensor_pow_f32 x n = pointwise (\<lambda>a. pow_f32 a n) x"

definition rsample_f32 :: "triangular \<Rightarrow> nat list \<Rightarrow> (nat list \<Rightarrow> fl) \<Rightarrow> fl tval" where
  "rsample_f32 self sample_shape rand =
     (let shp = extended_shape self sample_shape;
          interval_length = tensor_sub_f32 (Ok (high self)) (Ok (low self));
          samples = uniform_rsample rand shp
      in torch_where
           (torch_lt samples
              (tensor_div_f32 (tensor_sub_f32 (Ok (peak self)) (Ok (low self))) interval_length))
           (tensor_add_f32 (Ok (low self))
              (torch_sqrt_f32
                 (tensor_mul_f32 (tensor_mul_f32 samples interval_length)
                    (tensor_sub_f32 (Ok (peak self)) (Ok (low self))))))
           (tensor_sub_f32 (Ok (high self))
              (torch_sqrt_f32
                 (tensor_mul_f32
                    (tensor_mul_f32 (tensor_sub_f32 (number (Fin 1)) samples) interval_length)
                    (tensor_sub_f32 (Ok (high self)) (Ok (peak self)))))))"

definition cdf_f32 :: "triangular \<Rightarrow> fl tensor \<Rightarrow> fl tval" where
  "cdf_f32 self v =
     (let value = Ok v;
          interval_length = tensor_sub_f32 (Ok (high self)) (Ok (low self));
          inside_interval =
            torch_where
              (logical_and (torch_gt value (Ok (low self))) (torch_le value (Ok (peak self))))
              (tensor_div_f32 (tensor_pow_f32 (tensor_sub_f32 value (Ok (low self))) 2)
                 (tensor_mul_f32 interval_length (tensor_sub_f32 (Ok (peak self)) (Ok (low self)))))
              (tensor_sub_f32 (torch_tensor (Fin 1))
                 (tensor_div_f32 (tensor_pow_f32 (tensor_sub_f32 (Ok (high self)) value) 2)
                    (tensor_mul_f32 interval_length
                       (tensor_sub_f32 (Ok (high self)) (Ok (peak self))))));
          below_low = torch_where (torch_le value (Ok (low self))) (zeros_like value) inside_interval
      in torch_where (torch_ge value (Ok (high self))) (ones_like value) below_low)"

text \<open>The two bodies at a single element, as for the exact operators.\<close>

definition rsample_elem_f32 :: "fl \<Rightarrow> fl \<Rightarrow> fl \<Rightarrow> fl \<Rightarrow> fl" where
  "rsample_elem_f32 l h p u =
     (if u < div_f32 (sub_f32 p l) (sub_f32 h l)
      then add_f32 l (sqrt_f32 (mul_f32 (mul_f32 u (sub_f32 h l)) (sub_f32 p l)))
      else sub_f32 h (sqrt_f32 (mul_f32 (mul_f32 (sub_f32 (Fin 1) u) (sub_f32 h l)) (sub_f32 h p))))"

definition cdf_elem_f32 :: "fl \<Rightarrow> fl \<Rightarrow> fl \<Rightarrow> fl \<Rightarrow> fl" where
  "cdf_elem_f32 l h p x =
     (if h \<le> x then Fin 1
      else if x \<le> l then Fin 0
      else if l < x \<and> x \<le> p
      then div_f32 (pow_f32 (sub_f32 x l) 2) (mul_f32 (sub_f32 h l) (sub_f32 p l))
      else sub_f32 (Fin 1)
             (div_f32 (pow_f32 (sub_f32 h x) 2) (mul_f32 (sub_f32 h l) (sub_f32 h p))))"

text \<open>
  The element at an index of the result of an expression, if the expression returned
  a tensor; and a tensor of draws that are all equal.
\<close>

definition elt_of :: "'a tval \<Rightarrow> nat list \<Rightarrow> 'a option" where
  "elt_of x i = (case x of Raise e \<Rightarrow> None | Ok t \<Rightarrow> Some (elt t i))"

definition constant_draws :: "fl \<Rightarrow> nat list \<Rightarrow> fl" where
  "constant_draws u i = u"

section \<open>Indices and broadcasting\<close>

lemma set_indices: "set (indices s) = {i. valid_index s i}"
proof (induction s)
  case Nil
  then show ?case by (auto simp: valid_index_def)
next
  case (Cons d ds)
  show ?case
  proof (rule set_eqI)
    fix i
    show "i \<in> set (indices (d # ds)) \<longleftrightarrow> i \<in> {i. valid_index (d # ds) i}"
      using Cons by (cases i) (auto simp: valid_index_def)
  qed
qed

lemma list_all_indices: "list_all P (indices s) \<longleftrightarrow> (\<forall>i. valid_index s i \<longrightarrow> P i)"
  by (simp add: list_all_iff set_indices)

lemma broadcast_rev_same: "broadcast_rev xs xs = Some xs"
  by (induction xs) auto

lemma broadcast_rev_Nil2: "broadcast_rev xs [] = Some xs"
  by (cases xs) auto

lemma broadcast_rev_commute: "broadcast_rev xs ys = broadcast_rev ys xs"
  by (induction xs ys rule: broadcast_rev.induct) (auto simp: broadcast_rev_Nil2)

lemma broadcast_rev_expandable:
  "broadcast_rev xs ys = Some zs \<Longrightarrow> expandable_rev xs zs \<and> expandable_rev ys zs"
proof (induction xs ys arbitrary: zs rule: broadcast_rev.induct)
  case (1 ys)
  have "expandable_rev ys ys" by (induction ys) auto
  with 1 show ?case by simp
next
  case (2 x xs)
  have "expandable_rev (x # xs) (x # xs)" for x xs by (induction xs arbitrary: x) auto
  with 2 show ?case by simp
next
  case (3 x xs y ys)
  then show ?case by (auto split: if_splits)
qed

lemma expandable_rev_refl: "expandable_rev xs xs"
  by (induction xs) auto

lemma expandable_rev_broadcast:
  "expandable_rev xs zs \<Longrightarrow> broadcast_rev xs zs = Some zs \<and> broadcast_rev zs xs = Some zs"
proof (induction xs zs rule: expandable_rev.induct)
  case (1 ns)
  then show ?case by (simp add: broadcast_rev_Nil2)
next
  case (2 d ds)
  then show ?case by simp
next
  case (3 d ds n ns)
  then show ?case by auto
qed

lemma proj_rev_proj_rev:
  "expandable_rev xs zs \<Longrightarrow> proj_rev xs (proj_rev zs js) = proj_rev xs js"
proof (induction xs zs arbitrary: js rule: expandable_rev.induct)
  case (1 ns)
  then show ?case by simp
next
  case (2 d ds)
  then show ?case by simp
next
  case (3 d ds n ns)
  then show ?case by (cases js) auto
qed

lemma proj_rev_valid:
  "expandable_rev xs zs \<Longrightarrow> list_all2 (<) js zs \<Longrightarrow> list_all2 (<) (proj_rev xs js) xs"
proof (induction xs zs arbitrary: js rule: expandable_rev.induct)
  case (1 ns)
  then show ?case by simp
next
  case (2 d ds)
  then show ?case by simp
next
  case (3 d ds n ns)
  then show ?case by (cases js) auto
qed

lemma proj_rev_id: "list_all2 (<) js xs \<Longrightarrow> proj_rev xs js = js"
  by (induction xs js rule: proj_rev.induct) auto

lemma expandable_refl: "expandable s s"
  by (simp add: expandable_def expandable_rev_refl)

lemma expandable_Nil: "expandable [] s"
  by (simp add: expandable_def)

lemma expandable_append: "expandable s (ss @ s)"
proof -
  have "expandable_rev xs (xs @ ys)" for xs ys :: "nat list"
    by (induction xs) auto
  then show ?thesis by (simp add: expandable_def)
qed

lemma broadcast_shape_expandable:
  "broadcast_shape a b = Some s \<Longrightarrow> expandable a s \<and> expandable b s"
  using broadcast_rev_expandable [of "rev a" "rev b" "rev s"]
  by (auto simp: broadcast_shape_def expandable_def)

lemma expandable_broadcast1: "expandable a s \<Longrightarrow> broadcast_shape a s = Some s"
  using expandable_rev_broadcast [of "rev a" "rev s"]
  by (simp add: broadcast_shape_def expandable_def)

lemma expandable_broadcast2: "expandable a s \<Longrightarrow> broadcast_shape s a = Some s"
  using expandable_rev_broadcast [of "rev a" "rev s"]
  by (simp add: broadcast_shape_def expandable_def)

lemma broadcast_shape_same: "broadcast_shape s s = Some s"
  by (simp add: expandable_broadcast1 expandable_refl)

lemma broadcast_shape_commute: "broadcast_shape a b = broadcast_shape b a"
  by (simp add: broadcast_shape_def broadcast_rev_commute [of "rev a"])

lemma bproj_bproj: "expandable a s \<Longrightarrow> bproj a (bproj s i) = bproj a i"
  by (simp add: bproj_def expandable_def proj_rev_proj_rev)

lemma bproj_valid:
  assumes "expandable a s" and "valid_index s i"
  shows "valid_index a (bproj a i)"
proof -
  have "list_all2 (<) (proj_rev (rev a) (rev i)) (rev a)"
    using assms proj_rev_valid [of "rev a" "rev s" "rev i"]
    by (simp add: expandable_def valid_index_def)
  then have "list_all2 (<) (rev (proj_rev (rev a) (rev i))) (rev (rev a))"
    by (simp only: list_all2_rev)
  then show ?thesis by (simp add: bproj_def valid_index_def)
qed

lemma bproj_id: "valid_index s i \<Longrightarrow> bproj s i = i"
  using proj_rev_id [of "rev i" "rev s"]
  by (simp add: bproj_def valid_index_def)

lemma bproj_append: "valid_index (ss @ s) i \<Longrightarrow> valid_index s (bproj s i)"
  using bproj_valid expandable_append by blast

lemma bproj_Nil: "bproj [] i = []"
  by (simp add: bproj_def)

lemma broadcast2_Ok:
  "broadcast_shape (shape a) (shape b) = Some s \<Longrightarrow>
   broadcast2 f (Ok a) (Ok b) =
     Ok \<lparr>shape = s, elt = (\<lambda>i. f (elt a (bproj (shape a) i)) (elt b (bproj (shape b) i)))\<rparr>"
  by (simp add: broadcast2_def)

lemma pointwise_Ok:
  "pointwise f (Ok a) = Ok \<lparr>shape = shape a, elt = (\<lambda>i. f (elt a i))\<rparr>"
  by (simp add: pointwise_def)

lemma torch_where_Ok:
  "broadcast_shape (shape c) (shape a) = Some s1 \<Longrightarrow> broadcast_shape s1 (shape b) = Some s \<Longrightarrow>
   torch_where (Ok c) (Ok a) (Ok b) =
     Ok \<lparr>shape = s, elt = (\<lambda>i. if elt c (bproj (shape c) i) then elt a (bproj (shape a) i)
                                else elt b (bproj (shape b) i))\<rparr>"
  by (simp add: torch_where_def)

lemmas tensor_ops =
  plus_tval_def minus_tval_def times_tval_def divide_tval_def torch_lt_def torch_le_def
  torch_gt_def torch_ge_def logical_and_def logical_or_def torch_sqrt_def tensor_pow_def
  tensor_log_def ones_like_def zeros_like_def torch_tensor_def number_def uniform_rsample_def

section \<open>Arithmetic on numbers\<close>


lemma fl_less_not_le: "(x::fl) < y \<Longrightarrow> \<not> y \<le> x"
  by (cases x; cases y) auto


lemma fl_less_le_trans: "(x::fl) < y \<Longrightarrow> y \<le> z \<Longrightarrow> x < z"
  by (cases x; cases y; cases z) auto



lemma fl_le_refl: "(x::fl) \<le> y \<Longrightarrow> x \<le> x"
  by (cases x; cases y) auto

lemma fl_less_refl: "(x::fl) < y \<Longrightarrow> x \<le> x"
  by (cases x; cases y) auto

lemma Fin_minus [simp]: "Fin a - Fin b = Fin (a - b)"
  by (simp add: minus_fl_def)


lemma log_prob_elem_low:
  assumes "l < p" "p \<le> h"
  shows "log_prob_elem (Fin l) (Fin h) (Fin p) (Fin l) = NInf"
  using assms by (simp add: log_prob_elem_def minus_fl_def)

lemma log_prob_elem_high:
  assumes "l \<le> p" "p < h"
  shows "log_prob_elem (Fin l) (Fin h) (Fin p) (Fin h) = NInf"
  using assms by (simp add: log_prob_elem_def minus_fl_def)

lemma cdf_elem_low: "l < h \<Longrightarrow> cdf_elem l h p l = Fin 0"
  using fl_less_not_le [of l h] fl_less_refl [of l h] by (simp add: cdf_elem_def)

lemma cdf_elem_high: "l < h \<Longrightarrow> cdf_elem l h p h = Fin 1"
  using fl_less_refl [of h l] by (cases l; cases h) (auto simp add: cdf_elem_def)

lemma rsample_elem_peak_low:
  assumes "l < h"
  shows "rsample_elem (Fin l) (Fin h) (Fin l) (Fin 0) = Fin l"
proof -
  have "sqrt ((h - l) * (h - l)) = h - l"
    using assms by simp
  then show ?thesis
    using assms by (simp add: rsample_elem_def)
qed

lemma cdf_elem_Fin:
  assumes "l < p" "p < h"
  shows "cdf_elem (Fin l) (Fin h) (Fin p) (Fin x) =
     Fin (if h \<le> x then 1 else if x \<le> l then 0
          else if x \<le> p then (x - l)\<^sup>2 / ((h - l) * (p - l))
          else 1 - (h - x)\<^sup>2 / ((h - l) * (h - p)))"
  using assms by (auto simp: cdf_elem_def power2_eq_square numeral_2_eq_2)

lemma left_leg_bounds:
  fixes l p h x :: real
  assumes "l < p" "p < h" "l \<le> x" "x \<le> p"
  shows "0 \<le> (x - l)\<^sup>2 / ((h - l) * (p - l))"
    and "(x - l)\<^sup>2 / ((h - l) * (p - l)) \<le> (p - l) / (h - l)"
proof -
  have pos: "0 < (h - l) * (p - l)" using assms by simp
  show "0 \<le> (x - l)\<^sup>2 / ((h - l) * (p - l))" using pos by simp
  have "(x - l)\<^sup>2 \<le> (p - l)\<^sup>2" using assms by (intro power_mono) auto
  then have "(x - l)\<^sup>2 / ((h - l) * (p - l)) \<le> (p - l)\<^sup>2 / ((h - l) * (p - l))"
    using pos by (simp add: divide_right_mono)
  also have "\<dots> = (p - l) / (h - l)" using assms by (simp add: power2_eq_square)
  finally show "(x - l)\<^sup>2 / ((h - l) * (p - l)) \<le> (p - l) / (h - l)" .
qed

lemma right_leg_bounds:
  fixes l p h x :: real
  assumes "l < p" "p < h" "p \<le> x" "x \<le> h"
  shows "(p - l) / (h - l) \<le> 1 - (h - x)\<^sup>2 / ((h - l) * (h - p))"
    and "1 - (h - x)\<^sup>2 / ((h - l) * (h - p)) \<le> 1"
proof -
  have pos: "0 < (h - l) * (h - p)" using assms by simp
  show "1 - (h - x)\<^sup>2 / ((h - l) * (h - p)) \<le> 1" using pos by simp
  have "(h - x)\<^sup>2 \<le> (h - p)\<^sup>2" using assms by (intro power_mono) auto
  then have "(h - x)\<^sup>2 / ((h - l) * (h - p)) \<le> (h - p)\<^sup>2 / ((h - l) * (h - p))"
    using pos by (simp add: divide_right_mono)
  also have "\<dots> = (h - p) / (h - l)" using assms by (simp add: power2_eq_square)
  finally have "(h - x)\<^sup>2 / ((h - l) * (h - p)) \<le> (h - p) / (h - l)" .
  moreover have "1 - (h - p) / (h - l) = (p - l) / (h - l)"
    using assms by (simp add: field_simps)
  ultimately show "(p - l) / (h - l) \<le> 1 - (h - x)\<^sup>2 / ((h - l) * (h - p))" by linarith
qed

lemma left_leg_mono:
  fixes l p h x y :: real
  assumes "l < p" "p < h" "l \<le> x" "x \<le> y"
  shows "(x - l)\<^sup>2 / ((h - l) * (p - l)) \<le> (y - l)\<^sup>2 / ((h - l) * (p - l))"
proof -
  have pos: "0 < (h - l) * (p - l)" using assms by simp
  have "(x - l)\<^sup>2 \<le> (y - l)\<^sup>2" using assms by (intro power_mono) auto
  then show ?thesis using pos by (simp add: divide_right_mono)
qed

lemma right_leg_mono:
  fixes l p h x y :: real
  assumes "l < p" "p < h" "x \<le> y" "y \<le> h"
  shows "1 - (h - x)\<^sup>2 / ((h - l) * (h - p)) \<le> 1 - (h - y)\<^sup>2 / ((h - l) * (h - p))"
proof -
  have pos: "0 < (h - l) * (h - p)" using assms by simp
  have "(h - y)\<^sup>2 \<le> (h - x)\<^sup>2" using assms by (intro power_mono) auto
  then have "(h - y)\<^sup>2 / ((h - l) * (h - p)) \<le> (h - x)\<^sup>2 / ((h - l) * (h - p))"
    using pos by (simp add: divide_right_mono)
  then show ?thesis by linarith
qed

lemma cdf_elem_mono:
  assumes lp: "l < p" and ph: "p < h" and x: "l \<le> x" and xy: "x \<le> y" and y: "y \<le> h"
  shows "cdf_elem (Fin l) (Fin h) (Fin p) (Fin x) \<le> cdf_elem (Fin l) (Fin h) (Fin p) (Fin y)"
proof -
  let ?A = "\<lambda>x. (x - l)\<^sup>2 / ((h - l) * (p - l))"
  let ?B = "\<lambda>x. 1 - (h - x)\<^sup>2 / ((h - l) * (h - p))"
  let ?g = "(p - l) / (h - l)"
  have g: "0 \<le> ?g" "?g \<le> 1" using lp ph by simp_all
  consider (top) "h \<le> y" | (bot) "x \<le> l" "y < h"
    | (left) "l < x" "y \<le> p" | (cross) "l < x" "x \<le> p" "p < y" "y < h"
    | (right) "p < x" "y < h"
    by linarith
  then show ?thesis
  proof cases
    case top
    have "?A x \<le> 1" if "l < x" "x \<le> p"
      using left_leg_bounds(2) [OF lp ph, of x] that g by linarith
    moreover have "?B x \<le> 1" if "p < x"
      using right_leg_bounds(2) [OF lp ph, of x] that x xy y by linarith
    ultimately show ?thesis
      using top lp ph by (auto simp: cdf_elem_Fin)
  next
    case bot
    have "0 \<le> ?A y" if "l < y" "y \<le> p"
      using left_leg_bounds(1) [OF lp ph, of y] that by linarith
    moreover have "0 \<le> ?B y" if "p < y"
      using right_leg_bounds(1) [OF lp ph, of y] that y g by linarith
    ultimately show ?thesis
      using bot lp ph by (auto simp: cdf_elem_Fin)
  next
    case left
    have "?A x \<le> ?A y"
      using left_leg_mono [OF lp ph, of x y] left xy by linarith
    then show ?thesis
      using left lp ph xy by (auto simp: cdf_elem_Fin)
  next
    case cross
    have "?A x \<le> ?g" using left_leg_bounds(2) [OF lp ph, of x] cross by linarith
    moreover have "?g \<le> ?B y" using right_leg_bounds(1) [OF lp ph, of y] cross by linarith
    ultimately have "?A x \<le> ?B y" by linarith
    then show ?thesis
      using cross lp ph by (auto simp: cdf_elem_Fin)
  next
    case right
    have "?B x \<le> ?B y"
      using right_leg_mono [OF lp ph xy] right by linarith
    then show ?thesis
      using right lp ph xy by (auto simp: cdf_elem_Fin)
  qed
qed

lemma rsample_elem_bounds:
  assumes lh: "l < h" and lp: "l \<le> p" and ph: "p \<le> h" and u0: "0 \<le> u" and u1: "u < 1"
  shows "\<exists>r. rsample_elem (Fin l) (Fin h) (Fin p) (Fin u) = Fin r \<and> l \<le> r \<and> r \<le> h"
proof (cases "u < (p - l) / (h - l)")
  case True
  have arg: "0 \<le> u * (h - l) * (p - l)" using u0 lh lp by simp
  have "u * (h - l) < p - l" using True lh by (simp add: field_simps)
  then have "u * (h - l) * (p - l) \<le> (p - l) * (p - l)"
    using lp by (simp add: mult_right_mono)
  then have "sqrt (u * (h - l) * (p - l)) \<le> sqrt ((p - l) * (p - l))"
    by (rule real_sqrt_le_mono)
  also have "\<dots> = p - l" using lp by simp
  finally have up: "sqrt (u * (h - l) * (p - l)) \<le> p - l" .
  have "0 \<le> sqrt (u * (h - l) * (p - l))" using arg by simp
  with up True arg lh ph show ?thesis
    by (simp add: rsample_elem_def)
next
  case False
  have arg: "0 \<le> (1 - u) * (h - l) * (h - p)" using u1 lh ph by simp
  have "p - l \<le> u * (h - l)" using False lh by (simp add: field_simps)
  then have "(1 - u) * (h - l) \<le> h - p" by (simp add: algebra_simps)
  then have "(1 - u) * (h - l) * (h - p) \<le> (h - p) * (h - p)"
    using ph by (simp add: mult_right_mono)
  then have "sqrt ((1 - u) * (h - l) * (h - p)) \<le> sqrt ((h - p) * (h - p))"
    by (rule real_sqrt_le_mono)
  also have "\<dots> = h - p" using ph by simp
  finally have up: "sqrt ((1 - u) * (h - l) * (h - p)) \<le> h - p" .
  have "0 \<le> sqrt ((1 - u) * (h - l) * (h - p))" using arg by simp
  with up False arg lh lp show ?thesis
    by (simp add: rsample_elem_def)
qed

section \<open>Elementwise characterisation\<close>

lemma log_prob_char:
  assumes sh: "shape (low d) = bs" "shape (high d) = bs" "shape (peak d) = bs"
    and bc: "broadcast_shape (shape v) bs = Some s"
  shows "log_prob d v =
     Ok \<lparr>shape = s, elt = (\<lambda>i. log_prob_elem (elt (low d) (bproj bs i)) (elt (high d) (bproj bs i))
            (elt (peak d) (bproj bs i)) (elt v (bproj (shape v) i)))\<rparr>"
proof -
  from bc have e: "expandable (shape v) s" "expandable bs s"
    using broadcast_shape_expandable by blast+
  have bc': "broadcast_shape bs (shape v) = Some s"
    using bc by (simp add: broadcast_shape_commute)
  note b = bc bc' broadcast_shape_same expandable_broadcast1 expandable_broadcast2
    expandable_Nil expandable_refl
  show ?thesis
    unfolding log_prob_def Let_def tensor_ops torch_log.simps
    by (simp add: sh b e broadcast2_Ok pointwise_Ok torch_where_Ok bproj_bproj bproj_Nil
        log_prob_elem_def fun_eq_iff)
qed

lemma cdf_char:
  assumes sh: "shape (low d) = bs" "shape (high d) = bs" "shape (peak d) = bs"
    and bc: "broadcast_shape (shape v) bs = Some s"
  shows "cdf d v =
     Ok \<lparr>shape = s, elt = (\<lambda>i. cdf_elem (elt (low d) (bproj bs i)) (elt (high d) (bproj bs i))
            (elt (peak d) (bproj bs i)) (elt v (bproj (shape v) i)))\<rparr>"
proof -
  from bc have e: "expandable (shape v) s" "expandable bs s"
    using broadcast_shape_expandable by blast+
  have bc': "broadcast_shape bs (shape v) = Some s"
    using bc by (simp add: broadcast_shape_commute)
  note b = bc bc' broadcast_shape_same expandable_broadcast1 expandable_broadcast2
    expandable_Nil expandable_refl
  show ?thesis
    unfolding cdf_def Let_def tensor_ops
    by (simp add: sh b e broadcast2_Ok pointwise_Ok torch_where_Ok bproj_bproj bproj_Nil
        cdf_elem_def fun_eq_iff)
qed


lemma valid_params_at:
  assumes "valid_params d" and "expandable (batch_shape d) s" and "valid_index s i"
  shows "low_at d i < high_at d i" and "low_at d i \<le> peak_at d i" and "peak_at d i \<le> high_at d i"
proof -
  have "valid_index (batch_shape d) (bproj (batch_shape d) i)"
    using assms(2,3) by (rule bproj_valid)
  then have "bproj (batch_shape d) i \<in> set (indices (batch_shape d))"
    by (simp add: set_indices)
  with assms(1) show "low_at d i < high_at d i" and "low_at d i \<le> peak_at d i"
    and "peak_at d i \<le> high_at d i"
    by (auto simp: valid_params_def list_all_iff low_at_def high_at_def peak_at_def)
qed

lemma log_prob_at:
  assumes "well_formed d" and "broadcast_shape (shape v) (batch_shape d) = Some s"
  shows "\<exists>r. log_prob d v = Ok r \<and> shape r = s \<and>
     (\<forall>i. elt r i = log_prob_elem (low_at d i) (high_at d i) (peak_at d i) (value_at v i))"
  using assms log_prob_char [of d "batch_shape d" v s]
  by (simp add: well_formed_def low_at_def high_at_def peak_at_def value_at_def)

lemma cdf_at:
  assumes "well_formed d" and "broadcast_shape (shape v) (batch_shape d) = Some s"
  shows "\<exists>r. cdf d v = Ok r \<and> shape r = s \<and>
     (\<forall>i. elt r i = cdf_elem (low_at d i) (high_at d i) (peak_at d i) (value_at v i))"
  using assms cdf_char [of d "batch_shape d" v s]
  by (simp add: well_formed_def low_at_def high_at_def peak_at_def value_at_def)


lemma scalar_triangular_valid:
  "l < h \<Longrightarrow> l \<le> p \<Longrightarrow> p \<le> h \<Longrightarrow> valid_params (scalar_triangular l h p)"
  by (simp add: valid_params_def well_formed_def scalar_triangular_def)

lemma scalar_triangular_at:
  "low_at (scalar_triangular l h p) i = Fin l"
  "high_at (scalar_triangular l h p) i = Fin h"
  "peak_at (scalar_triangular l h p) i = Fin p"
  "batch_shape (scalar_triangular l h p) = []"
  "value_at (as_tensor (Number x)) i = x"
  "shape (as_tensor (Number x)) = []"
  by (simp_all add: scalar_triangular_def low_at_def high_at_def peak_at_def value_at_def)

section \<open>The constructor and expand\<close>

lemma tensor_all_broadcast2:
  assumes "shape a = s" "shape b = s"
  shows "tensor_all (broadcast2 f (Ok a) (Ok b)) =
     Inr (list_all (\<lambda>i. f (elt a i) (elt b i)) (indices s))"
proof -
  have "list_all (\<lambda>i. f (elt a (bproj s i)) (elt b (bproj s i))) (indices s) =
        list_all (\<lambda>i. f (elt a i) (elt b i)) (indices s)"
    by (simp add: list_all_iff set_indices bproj_id)
  then show ?thesis
    using assms by (simp add: tensor_all_def broadcast2_Ok broadcast_shape_same)
qed

lemma broadcast_all_shape:
  assumes "broadcast_all a b c = Inr (l, h, p)"
  shows "shape h = shape l" and "shape p = shape l"
  using assms by (auto simp: broadcast_all_def expand_to_def split: option.splits)

lemma fl_eq_finite: "is_finite x \<Longrightarrow> fl_eq x x"
  by (cases x) auto

lemma Triangular_init_enabled:
  assumes bc: "broadcast_all la ha pa = Inr (l, h, p)"
    and en: "validation_enabled dflt va"
    and fin: "list_all (\<lambda>i. is_finite (elt l i)) (indices (shape l))"
  shows "Triangular_init dflt la ha pa va =
     (if \<not> list_all (\<lambda>i. elt l i < elt h i) (indices (shape l))
      then Inl (ValueError ''Triangular is not defined when low >= high'')
      else if \<not> list_all (\<lambda>i. elt l i \<le> elt p i) (indices (shape l))
      then Inl (ValueError ''Triangular is not defined when peak < low'')
      else if \<not> list_all (\<lambda>i. elt p i \<le> elt h i) (indices (shape l))
      then Inl (ValueError ''Triangular is not defined when peak > high'')
      else Inr \<lparr>low = l, high = h, peak = p,
                batch_shape = (if is_Number la \<and> is_Number ha \<and> is_Number pa then [] else shape l),
                event_shape = [],
                dict_validate_args = (if va = PyNone then None else Some va)\<rparr>)"
proof -
  note sh = broadcast_all_shape [OF bc]
  have real: "list_all (\<lambda>i. fl_eq (elt l i) (elt l i)) (indices (shape l))"
    using fin by (simp add: list_all_iff fl_eq_finite)
  have en': "truthy (case va of PyNone \<Rightarrow> PyBool dflt | PyBool b \<Rightarrow> PyBool b)"
    using en by (simp add: validation_enabled_def)
  show ?thesis
    using en' real
    by (cases va)
      (simp_all add: Triangular_init_def bc Distribution_init_def Let_def get_validate_args_def
        constraints_real_check_def torch_lt_def torch_le_def
        tensor_all_broadcast2 [of _ "shape l"] sh)
qed

lemma Triangular_init_disabled:
  assumes bc: "broadcast_all la ha pa = Inr (l, h, p)"
    and en: "\<not> validation_enabled dflt va"
  shows "Triangular_init dflt la ha pa va =
     Inr \<lparr>low = l, high = h, peak = p,
          batch_shape = (if is_Number la \<and> is_Number ha \<and> is_Number pa then [] else shape l),
          event_shape = [],
          dict_validate_args = (if va = PyNone then None else Some va)\<rparr>"
  using en
  by (cases va)
    (simp_all add: Triangular_init_def bc Distribution_init_def Let_def get_validate_args_def
      validation_enabled_def)

lemma broadcast_all_same:
  assumes "shape a = s" "shape b = s" "shape c = s"
  shows "broadcast_all (Tensor a) (Tensor b) (Tensor c) =
     Inr (expand_to a s, expand_to b s, expand_to c s)"
  using assms by (simp add: broadcast_all_def broadcast_shape_same)

lemma expand_to_twice: "expandable (shape t) s \<Longrightarrow> expand_to (expand_to t s) s = expand_to t s"
  by (simp add: expand_to_def bproj_bproj)

lemma expand_fallback:
  assumes sup: "super_expand d bs = Inl NotImplementedError"
    and wf: "well_formed d"
    and ex: "expandable (batch_shape d) bs"
  shows "expand super_expand dflt d bs =
     Inr (Inr \<lparr>low = expand_to (low d) bs, high = expand_to (high d) bs,
               peak = expand_to (peak d) bs, batch_shape = bs, event_shape = [],
               dict_validate_args = Some (dict_get_validate_args d)\<rparr>)"
proof -
  have sh: "shape (low d) = batch_shape d" "shape (high d) = batch_shape d"
    "shape (peak d) = batch_shape d"
    using wf by (simp_all add: well_formed_def)
  have bc: "broadcast_all (Tensor (expand_to (low d) bs)) (Tensor (expand_to (high d) bs))
      (Tensor (expand_to (peak d) bs)) =
      Inr (expand_to (low d) bs, expand_to (high d) bs, expand_to (peak d) bs)"
  proof -
    have "shape (expand_to t bs) = bs" for t :: "fl tensor"
      by (simp add: expand_to_def)
    from broadcast_all_same [OF this this this]
    show ?thesis using ex sh by (simp add: expand_to_twice)
  qed
  have "\<not> validation_enabled dflt (PyBool False)"
    by (simp add: validation_enabled_def)
  from Triangular_init_disabled [OF bc this]
  show ?thesis
    using ex sh by (simp add: expand_def sup tensor_expand_def expand_to_def)
qed

lemma broadcast_all_numbers:
  "broadcast_all (Number a) (Number b) (Number c) =
     Inr (as_tensor (Number a), as_tensor (Number b), as_tensor (Number c))"
  by (simp add: broadcast_all_def broadcast_shape_same expand_to_def)

lemma Triangular_init_scalar:
  assumes "l < h" and "l \<le> p" and "p \<le> h"
  shows "Triangular_init dflt (Number (Fin l)) (Number (Fin h)) (Number (Fin p)) PyNone =
     Inr (scalar_triangular l h p)"
proof (cases "validation_enabled dflt PyNone")
  case True
  show ?thesis
    using assms Triangular_init_enabled [OF broadcast_all_numbers True]
    by (simp add: scalar_triangular_def)
next
  case False
  show ?thesis
    using Triangular_init_disabled [OF broadcast_all_numbers False]
    by (simp add: scalar_triangular_def)
qed

lemma expand_flag:
  assumes "super_expand d bs = Inl NotImplementedError"
    and "well_formed d" and "expandable (batch_shape d) bs"
  shows "\<exists>r. expand super_expand dflt d bs = Inr (Inr r) \<and>
     (truthy (get_validate_args dflt r) = truthy (get_validate_args dflt d)
        \<longleftrightarrow> dict_validate_args d \<noteq> None \<or> \<not> dflt)"
  using expand_fallback [where super_expand = super_expand and d = d and bs = bs and dflt = dflt,
      OF assms]
  by (auto simp: get_validate_args_def dict_get_validate_args_def split: option.splits)

lemma broadcast_all_numbers_shape:
  assumes "broadcast_all a b c = Inr (l, h, p)"
    and "is_Number a" "is_Number b" "is_Number c"
  shows "shape l = []"
  using assms
  by (cases a; cases b; cases c) (auto simp: broadcast_all_numbers)

lemma Triangular_init_valid:
  assumes "Triangular_init dflt low_arg high_arg peak_arg validate_args = Inr d"
    and "validation_enabled dflt validate_args"
  shows "valid_params d"
proof -
  from assms(1) obtain l h p where bc: "broadcast_all low_arg high_arg peak_arg = Inr (l, h, p)"
    by (auto simp: Triangular_init_def split: sum.splits)
  note sh = broadcast_all_shape [OF bc]
  have bs: "is_Number low_arg \<Longrightarrow> is_Number high_arg \<Longrightarrow> is_Number peak_arg \<Longrightarrow> shape l = []"
    using broadcast_all_numbers_shape [OF bc] by simp
  have en: "truthy (case validate_args of PyNone \<Rightarrow> PyBool dflt | PyBool b \<Rightarrow> PyBool b)"
    using assms(2) by (simp add: validation_enabled_def)
  show ?thesis
    using assms(1) en
    by (cases validate_args)
      (auto simp: Triangular_init_def bc Distribution_init_def Let_def get_validate_args_def
        torch_lt_def torch_le_def tensor_all_broadcast2 [of _ "shape l"] sh bs
        valid_params_def well_formed_def list_all_iff
        split: sum.splits if_splits)
qed

lemma Triangular_init_well_formed:
  assumes "Triangular_init dflt low_arg high_arg peak_arg validate_args = Inr d"
  shows "well_formed d"
proof -
  from assms(1) obtain l h p where bc: "broadcast_all low_arg high_arg peak_arg = Inr (l, h, p)"
    by (auto simp: Triangular_init_def split: sum.splits)
  note sh = broadcast_all_shape [OF bc]
  have bs: "is_Number low_arg \<Longrightarrow> is_Number high_arg \<Longrightarrow> is_Number peak_arg \<Longrightarrow> shape l = []"
    using broadcast_all_numbers_shape [OF bc] by simp
  show ?thesis
    using assms(1)
    by (cases validate_args)
      (auto simp: Triangular_init_def bc Distribution_init_def Let_def get_validate_args_def
        sh bs well_formed_def
        split: sum.splits if_splits)
qed

lemma fl_eq_refl_iff: "fl_eq x x \<longleftrightarrow> x \<noteq> NaN"
  by (cases x) auto

lemma fl_NaN_not_less: "\<not> NaN < (y::fl)"
  by simp

lemma Triangular_init_checked:
  assumes bc: "broadcast_all la ha pa = Inr (l, h, p)"
    and en: "validation_enabled dflt va"
  shows "Triangular_init dflt la ha pa va =
     (if \<not> list_all (\<lambda>i. fl_eq (elt l i) (elt l i)) (indices (shape l))
      then Inl (ValueError ''The parameter low has invalid values'')
      else if \<not> list_all (\<lambda>i. elt l i < elt h i) (indices (shape l))
      then Inl (ValueError ''Triangular is not defined when low >= high'')
      else if \<not> list_all (\<lambda>i. elt l i \<le> elt p i) (indices (shape l))
      then Inl (ValueError ''Triangular is not defined when peak < low'')
      else if \<not> list_all (\<lambda>i. elt p i \<le> elt h i) (indices (shape l))
      then Inl (ValueError ''Triangular is not defined when peak > high'')
      else Inr \<lparr>low = l, high = h, peak = p,
                batch_shape = (if is_Number la \<and> is_Number ha \<and> is_Number pa then [] else shape l),
                event_shape = [],
                dict_validate_args = (if va = PyNone then None else Some va)\<rparr>)"
proof -
  note sh = broadcast_all_shape [OF bc]
  have en': "truthy (case va of PyNone \<Rightarrow> PyBool dflt | PyBool b \<Rightarrow> PyBool b)"
    using en by (simp add: validation_enabled_def)
  show ?thesis
    using en'
    by (cases va)
      (simp_all add: Triangular_init_def bc Distribution_init_def Let_def get_validate_args_def
        constraints_real_check_def torch_lt_def torch_le_def
        tensor_all_broadcast2 [of _ "shape l"] sh)
qed

section \<open>Rounding to binary32\<close>

text \<open>Rounding to the nearest integer, and the binade of a positive number.\<close>

lemma rhe_cases: "round_half_even y = \<lfloor>y\<rfloor> \<or> round_half_even y = \<lfloor>y\<rfloor> + 1"
  by (simp add: round_half_even_def Let_def)

lemma rhe_of_int [simp]: "round_half_even (of_int m) = m"
  by (simp add: round_half_even_def)

lemma rhe_mono:
  assumes "a \<le> b"
  shows "round_half_even a \<le> round_half_even b"
proof (cases "\<lfloor>a\<rfloor> = \<lfloor>b\<rfloor>")
  case True
  have "a - of_int \<lfloor>b\<rfloor> \<le> b - of_int \<lfloor>b\<rfloor>" using assms by simp
  then show ?thesis
    using True by (auto simp: round_half_even_def Let_def)
next
  case False
  then have "\<lfloor>a\<rfloor> < \<lfloor>b\<rfloor>"
    using assms floor_mono [of a b] by linarith
  then show ?thesis
    using rhe_cases [of a] rhe_cases [of b] by linarith
qed

lemma rhe_ge: "of_int n \<le> y \<Longrightarrow> n \<le> round_half_even y"
  using rhe_mono [of "of_int n" y] by simp

lemma rhe_le: "y \<le> of_int n \<Longrightarrow> round_half_even y \<le> n"
  using rhe_mono [of y "of_int n"] by simp

lemma rhe_near:
  assumes "\<bar>y - of_int m\<bar> < 1 / 2"
  shows "round_half_even y = m"
proof (cases "of_int m \<le> y")
  case True
  then have "\<lfloor>y\<rfloor> = m" using assms by (intro floor_unique) auto
  then show ?thesis using assms True by (simp add: round_half_even_def Let_def)
next
  case False
  then have "\<lfloor>y\<rfloor> = m - 1" using assms by (intro floor_unique) auto
  then show ?thesis using assms False by (simp add: round_half_even_def Let_def)
qed

lemma two_powr_int: "(2::real) powr real_of_int e = 2 powi e"
  by (simp add: powr_real_of_int')

lemma two_powr_int_Suc: "(2::real) powr (real_of_int e + 1) = 2 powi (e + 1)"
  using two_powr_int [of "e + 1"] by simp

lemma f32_exponent_ge: "- 126 \<le> f32_exponent x"
  by (simp add: f32_exponent_def)

lemma f32_exponent_upper:
  assumes "0 < x"
  shows "x < 2 powi (f32_exponent x + 1)"
proof -
  let ?e = "f32_exponent x"
  have "log 2 x < of_int (\<lfloor>log 2 x\<rfloor> + 1)" by linarith
  also have "\<dots> \<le> of_int (?e + 1)" using assms by (simp add: f32_exponent_def)
  finally have "log 2 x < of_int (?e + 1)" .
  then have "x < 2 powr of_int (?e + 1)"
    using assms by (simp add: log_less_iff)
  then show ?thesis by (simp only: two_powr_int)
qed

lemma f32_exponent_lower:
  assumes "0 < x" and "- 126 < f32_exponent x"
  shows "2 powi f32_exponent x \<le> x"
proof -
  let ?e = "f32_exponent x"
  have "?e = \<lfloor>log 2 x\<rfloor>" using assms by (simp add: f32_exponent_def max_def split: if_splits)
  then have "of_int ?e \<le> log 2 x" by simp
  then have "2 powr of_int ?e \<le> x"
    using assms(1) by (simp add: le_log_iff)
  then show ?thesis by (simp only: two_powr_int)
qed

lemma f32_exponent_mono:
  assumes "0 < x" and "x \<le> y"
  shows "f32_exponent x \<le> f32_exponent y"
proof -
  have "log 2 x \<le> log 2 y" using assms by simp
  then have "\<lfloor>log 2 x\<rfloor> \<le> \<lfloor>log 2 y\<rfloor>" by (rule floor_mono)
  then show ?thesis using assms by (simp add: f32_exponent_def)
qed

lemma f32_exponent_eqI:
  assumes "2 powi e \<le> x" and "x < 2 powi (e + 1)" and "- 126 \<le> e"
  shows "f32_exponent x = e"
proof -
  have "0 < (2::real) powi e" by simp
  then have pos: "0 < x" using assms(1) by linarith
  have "2 powr of_int e \<le> x" "x < 2 powr (of_int e + 1)"
    using assms by (simp_all only: two_powr_int two_powr_int_Suc)
  then have "\<lfloor>log 2 x\<rfloor> = e"
    using pos by (simp add: floor_log_eq_powr_iff)
  then show ?thesis using pos assms(3) by (simp add: f32_exponent_def)
qed

text \<open>Rounding is odd, fixes zero, and is monotone.\<close>

lemma round_real_pos:
  assumes "0 < x"
  shows "round_real x =
     of_int (round_half_even (x / 2 powi (f32_exponent x - 23))) * 2 powi (f32_exponent x - 23)"
  using assms by (simp add: round_real_def)

lemma round_real_minus: "round_real (- x) = - round_real x"
  by (simp add: round_real_def f32_exponent_def sgn_minus)

lemma round_real_nonneg:
  assumes "0 \<le> x"
  shows "0 \<le> round_real x"
proof (cases "x = 0")
  case True
  then show ?thesis by (simp add: round_real_def)
next
  case False
  then have pos: "0 < x" using assms by simp
  have "0 \<le> x / 2 powi (f32_exponent x - 23)" using pos by simp
  then have "0 \<le> round_half_even (x / 2 powi (f32_exponent x - 23))"
    using rhe_ge [of 0] by simp
  then show ?thesis using pos by (simp add: round_real_pos)
qed

lemma round_real_upper:
  assumes "0 < x"
  shows "round_real x \<le> 2 powi (f32_exponent x + 1)"
proof -
  let ?e = "f32_exponent x"
  let ?q = "(2::real) powi (?e - 23)"
  have q: "0 < ?q" by simp
  have split: "(2::real) powi (?e + 1) = 2 ^ 24 * ?q"
    using power_int_add [of "2::real" 24 "?e - 23"] by (simp add: add.commute)
  have "x < 2 ^ 24 * ?q"
    using f32_exponent_upper [OF assms] unfolding split .
  then have "x / ?q \<le> 2 ^ 24"
    using q by (simp add: pos_divide_le_eq)
  then have "round_half_even (x / ?q) \<le> 2 ^ 24"
    using rhe_le [of "x / ?q" "2 ^ 24"] by simp
  then have "real_of_int (round_half_even (x / ?q)) \<le> 2 ^ 24"
    by (metis of_int_le_iff of_int_numeral of_int_power)
  then have "real_of_int (round_half_even (x / ?q)) * ?q \<le> 2 ^ 24 * ?q"
    using q by (simp add: mult_right_mono)
  then show ?thesis using assms unfolding split by (simp add: round_real_pos)
qed

lemma round_real_lower:
  assumes "0 < x" and "- 126 < f32_exponent x"
  shows "2 powi f32_exponent x \<le> round_real x"
proof -
  let ?e = "f32_exponent x"
  let ?q = "(2::real) powi (?e - 23)"
  have q: "0 < ?q" by simp
  have split: "(2::real) powi ?e = 2 ^ 23 * ?q"
    using power_int_add [of "2::real" 23 "?e - 23"] by simp
  have "2 ^ 23 * ?q \<le> x"
    using f32_exponent_lower [OF assms] unfolding split .
  then have "2 ^ 23 \<le> x / ?q"
    using q by (simp add: pos_le_divide_eq)
  then have "2 ^ 23 \<le> round_half_even (x / ?q)"
    using rhe_ge [of "2 ^ 23" "x / ?q"] by simp
  then have "2 ^ 23 \<le> real_of_int (round_half_even (x / ?q))"
    by (metis of_int_le_iff of_int_numeral of_int_power)
  then have "2 ^ 23 * ?q \<le> real_of_int (round_half_even (x / ?q)) * ?q"
    using q by (simp add: mult_right_mono)
  then show ?thesis using assms unfolding split by (simp add: round_real_pos)
qed

lemma round_real_mono_pos:
  assumes "0 < x" and "x \<le> y"
  shows "round_real x \<le> round_real y"
proof (cases "f32_exponent x = f32_exponent y")
  case True
  let ?q = "(2::real) powi (f32_exponent y - 23)"
  have q: "0 < ?q" by simp
  have "x / ?q \<le> y / ?q" using assms q by (simp add: divide_right_mono)
  then have "round_half_even (x / ?q) \<le> round_half_even (y / ?q)" by (rule rhe_mono)
  then have "real_of_int (round_half_even (x / ?q)) * ?q \<le> real_of_int (round_half_even (y / ?q)) * ?q"
    using q by (simp add: mult_right_mono)
  then show ?thesis using assms True by (simp add: round_real_pos)
next
  case False
  have y: "0 < y" using assms by linarith
  have lt: "f32_exponent x < f32_exponent y"
    using False f32_exponent_mono [OF assms] by linarith
  then have "- 126 < f32_exponent y" using f32_exponent_ge [of x] by linarith
  then have low: "2 powi f32_exponent y \<le> round_real y" using y by (rule round_real_lower [rotated])
  have "(2::real) powi (f32_exponent x + 1) \<le> 2 powi f32_exponent y"
    using lt by (intro power_int_increasing) auto
  with round_real_upper [OF assms(1)] low show ?thesis by linarith
qed

lemma round_real_mono:
  assumes "x \<le> y"
  shows "round_real x \<le> round_real y"
proof -
  consider (pos) "0 < x" | (neg) "y < 0" | (mid) "x \<le> 0" "0 \<le> y" by linarith
  then show ?thesis
  proof cases
    case pos
    then show ?thesis using assms by (rule round_real_mono_pos)
  next
    case neg
    then have "round_real (- y) \<le> round_real (- x)"
      using assms by (intro round_real_mono_pos) auto
    then show ?thesis by (simp add: round_real_minus)
  next
    case mid
    have "0 \<le> round_real y" using mid(2) by (rule round_real_nonneg)
    moreover have "0 \<le> round_real (- x)" using mid(1) by (intro round_real_nonneg) simp
    ultimately show ?thesis by (simp add: round_real_minus)
  qed
qed

lemma round_real_eqI:
  assumes "2 powi e \<le> x" and "x < 2 powi (e + 1)" and "- 126 \<le> e"
    and "\<bar>x / 2 powi (e - 23) - of_int m\<bar> < 1 / 2"
  shows "round_real x = of_int m * 2 powi (e - 23)"
proof -
  have "0 < (2::real) powi e" by simp
  then have pos: "0 < x" using assms(1) by linarith
  have e: "f32_exponent x = e" using assms(1-3) by (rule f32_exponent_eqI)
  show ?thesis
    using pos rhe_near [OF assms(4)] by (simp add: round_real_pos e)
qed

lemma round_f32_not_NaN: "round_f32 x = NaN \<longleftrightarrow> x = NaN"
  by (cases x) auto

lemma round_f32_mono:
  assumes "a \<le> b"
  shows "round_f32 a \<le> round_f32 b"
proof -
  have fin: "round_f32 (Fin x) \<le> round_f32 (Fin y)" if xy: "x \<le> y" for x y
  proof -
    note m = round_real_mono [OF xy]
    have "0 \<le> round_real x" if "0 < x" using that round_real_nonneg [of x] by simp
    moreover have "round_real y \<le> 0" if "\<not> 0 < y"
      using that round_real_nonneg [of "- y"] by (simp add: round_real_minus)
    moreover have "round_real x \<le> 0" if "\<not> 0 < x"
      using that round_real_nonneg [of "- x"] by (simp add: round_real_minus)
    moreover have "0 \<le> round_real y" if "0 < y" using that round_real_nonneg [of y] by simp
    ultimately show ?thesis
      using m xy by auto
  qed
  show ?thesis
  proof (cases a)
    case NaN
    then show ?thesis using assms by simp
  next
    case NInf
    then show ?thesis using assms by (cases b) auto
  next
    case (Fin x)
    then show ?thesis using assms fin by (cases b) auto
  next
    case PInf
    then show ?thesis using assms by (cases b) auto
  qed
qed

text \<open>
  Evaluating a rounding: a number in the binade of exponent \<open>e\<close> rounds to
  \<open>m * 2^(e - 23)\<close> when its quotient by \<open>2^(e - 23)\<close> is within one half of \<open>m\<close>.
\<close>

lemma round_f32_zero [simp]: "round_f32 (Fin 0) = Fin 0"
  by (simp add: round_real_def)

lemma round_f32_eqI:
  assumes "2 powi e \<le> x" and "x < 2 powi (e + 1)" and "- 126 \<le> e"
    and "\<bar>x / 2 powi (e - 23) - of_int m\<bar> < 1 / 2"
    and "y = of_int m * 2 powi (e - 23)" and "\<bar>y\<bar> < 2 ^ 128"
  shows "round_f32 (Fin x) = Fin y"
  using round_real_eqI [OF assms(1-4)] assms(5,6) by simp

lemma round_real_sqrt_eqI:
  assumes e: "- 126 \<le> e" and m: "2 ^ 23 < m" "m < 2 ^ 24"
    and lo: "((of_int m - 1 / 2) * 2 powi (e - 23))\<^sup>2 < t"
    and hi: "t < ((of_int m + 1 / 2) * 2 powi (e - 23))\<^sup>2"
  shows "round_real (sqrt t) = of_int m * 2 powi (e - 23)"
proof -
  let ?q = "(2::real) powi (e - 23)"
  have q: "0 < ?q" by simp
  have m1: "(2::real) ^ 23 + 1 \<le> of_int m"
  proof -
    have "(2::int) ^ 23 + 1 \<le> m" using m(1) by simp
    then have "real_of_int (2 ^ 23 + 1) \<le> of_int m" by (simp only: of_int_le_iff)
    then show ?thesis by simp
  qed
  have m2: "real_of_int m \<le> 2 ^ 24 - 1"
  proof -
    have "m \<le> (2::int) ^ 24 - 1" using m(2) by simp
    then have "real_of_int m \<le> of_int (2 ^ 24 - 1)" by (simp only: of_int_le_iff)
    then show ?thesis by simp
  qed
  have a: "(of_int m - 1 / 2) * ?q < sqrt t"
    using lo by (rule real_less_rsqrt)
  have "0 \<le> (of_int m + 1 / 2) * ?q" using m1 q by simp
  then have b: "sqrt t < (of_int m + 1 / 2) * ?q"
    using hi by (rule real_less_lsqrt)
  have s1: "(2::real) powi e = 2 ^ 23 * ?q"
    using power_int_add [of "2::real" 23 "e - 23"] by simp
  have s2: "(2::real) powi (e + 1) = 2 ^ 24 * ?q"
    using power_int_add [of "2::real" 24 "e - 23"] by (simp add: add.commute)
  have "2 ^ 23 * ?q \<le> (of_int m - 1 / 2) * ?q"
    using m1 q by (intro mult_right_mono) auto
  with a have lower: "2 powi e \<le> sqrt t" unfolding s1 by linarith
  have "(of_int m + 1 / 2) * ?q \<le> 2 ^ 24 * ?q"
    using m2 q by (intro mult_right_mono) auto
  with b have upper: "sqrt t < 2 powi (e + 1)" unfolding s2 by linarith
  have "of_int m - 1 / 2 < sqrt t / ?q" "sqrt t / ?q < of_int m + 1 / 2"
    using a b q by (simp_all add: pos_less_divide_eq pos_divide_less_eq)
  then have near: "\<bar>sqrt t / ?q - of_int m\<bar> < 1 / 2" by linarith
  show ?thesis by (rule round_real_eqI [OF lower upper e near])
qed

lemma round_f32_one: "round_f32 (Fin 1) = Fin 1"
proof (rule round_f32_eqI [where e = 0 and m = 8388608])
  show "(2::real) powi 0 \<le> 1" by simp
  show "(1 :: real) < 2 powi (0 + 1)" by simp
  show "- 126 \<le> (0 :: int)" by simp
  show "\<bar>1 / 2 powi (0 - 23) - real_of_int 8388608\<bar> < 1 / 2" by simp
  show "(1 :: real) = real_of_int 8388608 * 2 powi (0 - 23)" by simp
  show "\<bar>1 :: real\<bar> < 2 ^ 128" by simp
qed

section \<open>Elementwise characterisation of the binary32 methods\<close>

lemmas tensor_ops_f32 =
  tensor_add_f32_def tensor_sub_f32_def tensor_mul_f32_def tensor_div_f32_def
  torch_sqrt_f32_def tensor_pow_f32_def

lemma cdf_f32_char:
  assumes sh: "shape (low d) = bs" "shape (high d) = bs" "shape (peak d) = bs"
    and bc: "broadcast_shape (shape v) bs = Some s"
  shows "cdf_f32 d v =
     Ok \<lparr>shape = s, elt = (\<lambda>i. cdf_elem_f32 (elt (low d) (bproj bs i)) (elt (high d) (bproj bs i))
            (elt (peak d) (bproj bs i)) (elt v (bproj (shape v) i)))\<rparr>"
proof -
  from bc have e: "expandable (shape v) s" "expandable bs s"
    using broadcast_shape_expandable by blast+
  have bc': "broadcast_shape bs (shape v) = Some s"
    using bc by (simp add: broadcast_shape_commute)
  note b = bc bc' broadcast_shape_same expandable_broadcast1 expandable_broadcast2
    expandable_Nil expandable_refl
  show ?thesis
    unfolding cdf_f32_def Let_def tensor_ops tensor_ops_f32
    by (simp add: sh b e broadcast2_Ok pointwise_Ok torch_where_Ok bproj_bproj bproj_Nil
        cdf_elem_f32_def fun_eq_iff)
qed

lemma rsample_f32_char:
  assumes sh: "shape (low d) = bs" "shape (high d) = bs" "shape (peak d) = bs"
    and bs: "batch_shape d = bs" and es: "event_shape d = []"
  shows "rsample_f32 d ss rand =
     Ok \<lparr>shape = ss @ bs, elt = (\<lambda>i. rsample_elem_f32 (elt (low d) (bproj bs i))
            (elt (high d) (bproj bs i)) (elt (peak d) (bproj bs i)) (rand (bproj (ss @ bs) i)))\<rparr>"
proof -
  have e: "expandable bs (ss @ bs)" by (rule expandable_append)
  note b = broadcast_shape_same expandable_broadcast1 expandable_broadcast2
    expandable_Nil expandable_refl
  show ?thesis
    unfolding rsample_f32_def Let_def tensor_ops tensor_ops_f32 extended_shape_def
    by (simp add: sh bs es b e broadcast2_Ok pointwise_Ok torch_where_Ok bproj_bproj bproj_Nil
        rsample_elem_f32_def fun_eq_iff)
qed

lemma cdf_f32_at:
  assumes "well_formed d" and "broadcast_shape (shape v) (batch_shape d) = Some s"
  shows "\<exists>r. cdf_f32 d v = Ok r \<and> shape r = s \<and>
     (\<forall>i. elt r i = cdf_elem_f32 (low_at d i) (high_at d i) (peak_at d i) (value_at v i))"
  using assms cdf_f32_char [of d "batch_shape d" v s]
  by (simp add: well_formed_def low_at_def high_at_def peak_at_def value_at_def)

lemma rsample_f32_at:
  assumes "well_formed d"
  shows "\<exists>r. rsample_f32 d ss rand = Ok r \<and> shape r = ss @ batch_shape d \<and>
     (\<forall>i. valid_index (ss @ batch_shape d) i \<longrightarrow>
        elt r i = rsample_elem_f32 (low_at d i) (high_at d i) (peak_at d i) (rand i))"
  using assms rsample_f32_char [of d "batch_shape d" ss rand]
  by (simp add: well_formed_def low_at_def high_at_def peak_at_def bproj_id)

lemma scalar_well_formed: "well_formed (scalar_triangular l h p)"
  by (simp add: well_formed_def scalar_triangular_def)

lemma rsample_f32_scalar:
  "elt_of (rsample_f32 (scalar_triangular l h p) [] (constant_draws u)) [] =
     Some (rsample_elem_f32 (Fin l) (Fin h) (Fin p) u)"
proof -
  have v: "valid_index ([] @ batch_shape (scalar_triangular l h p)) []"
    by (simp add: valid_index_def scalar_triangular_at)
  show ?thesis
    using rsample_f32_at [OF scalar_well_formed [of l h p], where ss = "[]"
        and rand = "constant_draws u"] v
    by (auto simp: elt_of_def scalar_triangular_at constant_draws_def)
qed

lemma cdf_f32_scalar:
  "elt_of (cdf_f32 (scalar_triangular l h p) (as_tensor (Number x))) [] =
     Some (cdf_elem_f32 (Fin l) (Fin h) (Fin p) x)"
proof -
  have b: "broadcast_shape (shape (as_tensor (Number x))) (batch_shape (scalar_triangular l h p)) = Some []"
    by (simp add: scalar_triangular_at broadcast_shape_same)
  show ?thesis
    using cdf_f32_at [OF scalar_well_formed b]
    by (auto simp: elt_of_def scalar_triangular_at value_at_def bproj_Nil)
qed

lemma cdf_f32_scalar_record:
  "elt_of (cdf_f32 (scalar_triangular l h p) \<lparr>shape = [], elt = \<lambda>i. x\<rparr>) [] =
     Some (cdf_elem_f32 (Fin l) (Fin h) (Fin p) x)"
  using cdf_f32_scalar [of l h p x] by simp

section \<open>Three evaluations in binary32\<close>

text \<open>
  The rounding rule of \<open>round_f32\<close> is applied through the lemmas above from here on.
\<close>

declare round_f32.simps(1) [simp del]

text \<open>
  Each lemma evaluates one operation of \<open>rsample_f32\<close> for \<open>Triangular(0.1, 0.4, 0.1)\<close>
  with draw 0 and for \<open>Triangular(0, 2^66, 2^65)\<close> with draw 1/4, or of \<open>cdf_f32\<close> for
  \<open>Triangular(0, 0.7, 0.1)\<close> at the peak and at the next binary32 number and for
  \<open>Triangular(0, 2^66, 2^65)\<close> at \<open>2^64\<close>. The binary32 numbers nearest to 0.1, 0.4 and
  0.7 are \<open>13421773 / 2^27\<close>, \<open>13421773 / 2^25\<close> and \<open>11744051 / 2^24\<close>.
\<close>

lemma f32_round2: "round_f32 (Fin (40265319 / 134217728)) = Fin (5033165 / 16777216)"
proof (rule round_f32_eqI [where e = "- 2" and m = 10066330])
  show "(2::real) powi - 2 \<le> 40265319 / 134217728" by simp
  show "(40265319 / 134217728 :: real) < 2 powi (- 2 + 1)" by simp
  show "- 126 \<le> (- 2 :: int)" by simp
  show "\<bar>40265319 / 134217728 / 2 powi (- 2 - 23) - real_of_int 10066330\<bar> < 1 / 2" by simp
  show "(5033165 / 16777216 :: real) = real_of_int 10066330 * 2 powi (- 2 - 23)" by simp
  show "\<bar>5033165 / 16777216 :: real\<bar> < 2 ^ 128" by simp
qed

lemma f32_sub1: "sub_f32 (Fin (13421773 / 33554432)) (Fin (13421773 / 134217728)) = Fin (5033165 / 16777216)"
  by (simp add: sub_f32_def f32_round2)

lemma f32_sub3: "sub_f32 (Fin (13421773 / 134217728)) (Fin (13421773 / 134217728)) = Fin 0"
  by (simp add: sub_f32_def round_f32_zero)

lemma f32_div4: "div_f32 (Fin 0) (Fin (5033165 / 16777216)) = Fin 0"
  by (simp add: div_f32_def round_f32_zero)

lemma f32_round6: "round_f32 (Fin (1)) = Fin (1)"
proof (rule round_f32_eqI [where e = "0" and m = 8388608])
  show "(2::real) powi 0 \<le> 1" by simp
  show "(1 :: real) < 2 powi (0 + 1)" by simp
  show "- 126 \<le> (0 :: int)" by simp
  show "\<bar>1 / 2 powi (0 - 23) - real_of_int 8388608\<bar> < 1 / 2" by simp
  show "(1 :: real) = real_of_int 8388608 * 2 powi (0 - 23)" by simp
  show "\<bar>1 :: real\<bar> < 2 ^ 128" by simp
qed

lemma f32_sub5: "sub_f32 (Fin 1) (Fin 0) = Fin 1"
  by (simp add: sub_f32_def f32_round6)

lemma f32_round8: "round_f32 (Fin (5033165 / 16777216)) = Fin (5033165 / 16777216)"
proof (rule round_f32_eqI [where e = "- 2" and m = 10066330])
  show "(2::real) powi - 2 \<le> 5033165 / 16777216" by simp
  show "(5033165 / 16777216 :: real) < 2 powi (- 2 + 1)" by simp
  show "- 126 \<le> (- 2 :: int)" by simp
  show "\<bar>5033165 / 16777216 / 2 powi (- 2 - 23) - real_of_int 10066330\<bar> < 1 / 2" by simp
  show "(5033165 / 16777216 :: real) = real_of_int 10066330 * 2 powi (- 2 - 23)" by simp
  show "\<bar>5033165 / 16777216 :: real\<bar> < 2 ^ 128" by simp
qed

lemma f32_mul7: "mul_f32 (Fin 1) (Fin (5033165 / 16777216)) = Fin (5033165 / 16777216)"
  by (simp add: mul_f32_def f32_round8)

lemma f32_round10: "round_f32 (Fin (25332749917225 / 281474976710656)) = Fin (3019899 / 33554432)"
proof (rule round_f32_eqI [where e = "- 4" and m = 12079596])
  show "(2::real) powi - 4 \<le> 25332749917225 / 281474976710656" by simp
  show "(25332749917225 / 281474976710656 :: real) < 2 powi (- 4 + 1)" by simp
  show "- 126 \<le> (- 4 :: int)" by simp
  show "\<bar>25332749917225 / 281474976710656 / 2 powi (- 4 - 23) - real_of_int 12079596\<bar> < 1 / 2" by simp
  show "(3019899 / 33554432 :: real) = real_of_int 12079596 * 2 powi (- 4 - 23)" by simp
  show "\<bar>3019899 / 33554432 :: real\<bar> < 2 ^ 128" by simp
qed

lemma f32_mul9: "mul_f32 (Fin (5033165 / 16777216)) (Fin (5033165 / 16777216)) = Fin (3019899 / 33554432)"
  by (simp add: mul_f32_def f32_round10)

lemma f32_sqrt11: "sqrt_f32 (Fin (3019899 / 33554432)) = Fin (5033165 / 16777216)"
proof -
  have r: "round_real (sqrt (3019899 / 33554432)) = real_of_int 10066330 * 2 powi (- 2 - 23)"
  proof (rule round_real_sqrt_eqI)
    show "- 126 \<le> (- 2 :: int)" by simp
    show "(2::int) ^ 23 < 10066330" by simp
    show "(10066330::int) < 2 ^ 24" by simp
    show "((real_of_int 10066330 - 1 / 2) * 2 powi (- 2 - 23))\<^sup>2 < 3019899 / 33554432" by (simp add: power2_eq_square)
    show "(3019899 / 33554432 :: real) < ((real_of_int 10066330 + 1 / 2) * 2 powi (- 2 - 23))\<^sup>2" by (simp add: power2_eq_square)
  qed
  have v: "real_of_int 10066330 * 2 powi (- 2 - 23) = 5033165 / 16777216" by simp
  have "sqrt_f32 (Fin (3019899 / 33554432)) = round_f32 (Fin (sqrt (3019899 / 33554432)))"
    unfolding sqrt_f32_def by (simp del: real_sqrt_divide)
  also have "\<dots> = Fin (5033165 / 16777216)"
    unfolding round_f32.simps r v by simp
  finally show ?thesis .
qed

lemma f32_round13: "round_f32 (Fin (3355443 / 33554432)) = Fin (3355443 / 33554432)"
proof (rule round_f32_eqI [where e = "- 4" and m = 13421772])
  show "(2::real) powi - 4 \<le> 3355443 / 33554432" by simp
  show "(3355443 / 33554432 :: real) < 2 powi (- 4 + 1)" by simp
  show "- 126 \<le> (- 4 :: int)" by simp
  show "\<bar>3355443 / 33554432 / 2 powi (- 4 - 23) - real_of_int 13421772\<bar> < 1 / 2" by simp
  show "(3355443 / 33554432 :: real) = real_of_int 13421772 * 2 powi (- 4 - 23)" by simp
  show "\<bar>3355443 / 33554432 :: real\<bar> < 2 ^ 128" by simp
qed

lemma f32_sub12: "sub_f32 (Fin (13421773 / 33554432)) (Fin (5033165 / 16777216)) = Fin (3355443 / 33554432)"
  by (simp add: sub_f32_def f32_round13)

lemma f32_round15: "round_f32 (Fin (73786976294838206464)) = Fin (73786976294838206464)"
proof (rule round_f32_eqI [where e = "66" and m = 8388608])
  show "(2::real) powi 66 \<le> 73786976294838206464" by simp
  show "(73786976294838206464 :: real) < 2 powi (66 + 1)" by simp
  show "- 126 \<le> (66 :: int)" by simp
  show "\<bar>73786976294838206464 / 2 powi (66 - 23) - real_of_int 8388608\<bar> < 1 / 2" by simp
  show "(73786976294838206464 :: real) = real_of_int 8388608 * 2 powi (66 - 23)" by simp
  show "\<bar>73786976294838206464 :: real\<bar> < 2 ^ 128" by simp
qed

lemma f32_sub14: "sub_f32 (Fin 73786976294838206464) (Fin 0) = Fin 73786976294838206464"
  by (simp add: sub_f32_def f32_round15)

lemma f32_round17: "round_f32 (Fin (36893488147419103232)) = Fin (36893488147419103232)"
proof (rule round_f32_eqI [where e = "65" and m = 8388608])
  show "(2::real) powi 65 \<le> 36893488147419103232" by simp
  show "(36893488147419103232 :: real) < 2 powi (65 + 1)" by simp
  show "- 126 \<le> (65 :: int)" by simp
  show "\<bar>36893488147419103232 / 2 powi (65 - 23) - real_of_int 8388608\<bar> < 1 / 2" by simp
  show "(36893488147419103232 :: real) = real_of_int 8388608 * 2 powi (65 - 23)" by simp
  show "\<bar>36893488147419103232 :: real\<bar> < 2 ^ 128" by simp
qed

lemma f32_sub16: "sub_f32 (Fin 36893488147419103232) (Fin 0) = Fin 36893488147419103232"
  by (simp add: sub_f32_def f32_round17)

lemma f32_round19: "round_f32 (Fin (1 / 2)) = Fin (1 / 2)"
proof (rule round_f32_eqI [where e = "- 1" and m = 8388608])
  show "(2::real) powi - 1 \<le> 1 / 2" by simp
  show "(1 / 2 :: real) < 2 powi (- 1 + 1)" by simp
  show "- 126 \<le> (- 1 :: int)" by simp
  show "\<bar>1 / 2 / 2 powi (- 1 - 23) - real_of_int 8388608\<bar> < 1 / 2" by simp
  show "(1 / 2 :: real) = real_of_int 8388608 * 2 powi (- 1 - 23)" by simp
  show "\<bar>1 / 2 :: real\<bar> < 2 ^ 128" by simp
qed

lemma f32_div18: "div_f32 (Fin 36893488147419103232) (Fin 73786976294838206464) = Fin (1 / 2)"
  by (simp add: div_f32_def f32_round19)

lemma f32_round21: "round_f32 (Fin (18446744073709551616)) = Fin (18446744073709551616)"
proof (rule round_f32_eqI [where e = "64" and m = 8388608])
  show "(2::real) powi 64 \<le> 18446744073709551616" by simp
  show "(18446744073709551616 :: real) < 2 powi (64 + 1)" by simp
  show "- 126 \<le> (64 :: int)" by simp
  show "\<bar>18446744073709551616 / 2 powi (64 - 23) - real_of_int 8388608\<bar> < 1 / 2" by simp
  show "(18446744073709551616 :: real) = real_of_int 8388608 * 2 powi (64 - 23)" by simp
  show "\<bar>18446744073709551616 :: real\<bar> < 2 ^ 128" by simp
qed

lemma f32_mul20: "mul_f32 (Fin (1 / 4)) (Fin 73786976294838206464) = Fin 18446744073709551616"
  by (simp add: mul_f32_def f32_round21)

lemma f32_round23: "round_f32 (Fin (680564733841876926926749214863536422912)) = PInf"
proof -
  have "round_real (680564733841876926926749214863536422912) = real_of_int 8388608 * 2 powi (129 - 23)"
  proof (rule round_real_eqI)
    show "(2::real) powi 129 \<le> 680564733841876926926749214863536422912" by simp
    show "(680564733841876926926749214863536422912 :: real) < 2 powi (129 + 1)" by simp
    show "- 126 \<le> (129 :: int)" by simp
    show "\<bar>680564733841876926926749214863536422912 / 2 powi (129 - 23) - real_of_int 8388608\<bar> < 1 / 2" by simp
  qed
  then show ?thesis by (simp add: round_f32.simps)
qed

lemma f32_mul22: "mul_f32 (Fin 18446744073709551616) (Fin 36893488147419103232) = PInf"
  by (simp add: mul_f32_def f32_round23)

lemma f32_sqrt24: "sqrt_f32 PInf = PInf"
  by (simp add: sqrt_f32_def)

lemma f32_add25: "add_f32 (Fin 0) (PInf) = PInf"
  by (simp add: add_f32_def)

lemma f32_round27: "round_f32 (Fin (11744051 / 16777216)) = Fin (11744051 / 16777216)"
proof (rule round_f32_eqI [where e = "- 1" and m = 11744051])
  show "(2::real) powi - 1 \<le> 11744051 / 16777216" by simp
  show "(11744051 / 16777216 :: real) < 2 powi (- 1 + 1)" by simp
  show "- 126 \<le> (- 1 :: int)" by simp
  show "\<bar>11744051 / 16777216 / 2 powi (- 1 - 23) - real_of_int 11744051\<bar> < 1 / 2" by simp
  show "(11744051 / 16777216 :: real) = real_of_int 11744051 * 2 powi (- 1 - 23)" by simp
  show "\<bar>11744051 / 16777216 :: real\<bar> < 2 ^ 128" by simp
qed

lemma f32_sub26: "sub_f32 (Fin (11744051 / 16777216)) (Fin 0) = Fin (11744051 / 16777216)"
  by (simp add: sub_f32_def f32_round27)

lemma f32_round29: "round_f32 (Fin (13421773 / 134217728)) = Fin (13421773 / 134217728)"
proof (rule round_f32_eqI [where e = "- 4" and m = 13421773])
  show "(2::real) powi - 4 \<le> 13421773 / 134217728" by simp
  show "(13421773 / 134217728 :: real) < 2 powi (- 4 + 1)" by simp
  show "- 126 \<le> (- 4 :: int)" by simp
  show "\<bar>13421773 / 134217728 / 2 powi (- 4 - 23) - real_of_int 13421773\<bar> < 1 / 2" by simp
  show "(13421773 / 134217728 :: real) = real_of_int 13421773 * 2 powi (- 4 - 23)" by simp
  show "\<bar>13421773 / 134217728 :: real\<bar> < 2 ^ 128" by simp
qed

lemma f32_sub28: "sub_f32 (Fin (13421773 / 134217728)) (Fin 0) = Fin (13421773 / 134217728)"
  by (simp add: sub_f32_def f32_round29)

lemma f32_round31: "round_f32 (Fin (180143990463529 / 18014398509481984)) = Fin (10737419 / 1073741824)"
proof (rule round_f32_eqI [where e = "- 7" and m = 10737419])
  show "(2::real) powi - 7 \<le> 180143990463529 / 18014398509481984" by simp
  show "(180143990463529 / 18014398509481984 :: real) < 2 powi (- 7 + 1)" by simp
  show "- 126 \<le> (- 7 :: int)" by simp
  show "\<bar>180143990463529 / 18014398509481984 / 2 powi (- 7 - 23) - real_of_int 10737419\<bar> < 1 / 2" by simp
  show "(10737419 / 1073741824 :: real) = real_of_int 10737419 * 2 powi (- 7 - 23)" by simp
  show "\<bar>10737419 / 1073741824 :: real\<bar> < 2 ^ 128" by simp
qed

lemma f32_pow30: "pow_f32 (Fin (13421773 / 134217728)) 2 = Fin (10737419 / 1073741824)"
  by (simp add: pow_f32_def numeral_2_eq_2 f32_round31)

lemma f32_round33: "round_f32 (Fin (157625986622423 / 2251799813685248)) = Fin (9395241 / 134217728)"
proof (rule round_f32_eqI [where e = "- 4" and m = 9395241])
  show "(2::real) powi - 4 \<le> 157625986622423 / 2251799813685248" by simp
  show "(157625986622423 / 2251799813685248 :: real) < 2 powi (- 4 + 1)" by simp
  show "- 126 \<le> (- 4 :: int)" by simp
  show "\<bar>157625986622423 / 2251799813685248 / 2 powi (- 4 - 23) - real_of_int 9395241\<bar> < 1 / 2" by simp
  show "(9395241 / 134217728 :: real) = real_of_int 9395241 * 2 powi (- 4 - 23)" by simp
  show "\<bar>9395241 / 134217728 :: real\<bar> < 2 ^ 128" by simp
qed

lemma f32_mul32: "mul_f32 (Fin (11744051 / 16777216)) (Fin (13421773 / 134217728)) = Fin (9395241 / 134217728)"
  by (simp add: mul_f32_def f32_round33)

lemma f32_round35: "round_f32 (Fin (10737419 / 75161928)) = Fin (9586981 / 67108864)"
proof (rule round_f32_eqI [where e = "- 3" and m = 9586981])
  show "(2::real) powi - 3 \<le> 10737419 / 75161928" by simp
  show "(10737419 / 75161928 :: real) < 2 powi (- 3 + 1)" by simp
  show "- 126 \<le> (- 3 :: int)" by simp
  show "\<bar>10737419 / 75161928 / 2 powi (- 3 - 23) - real_of_int 9586981\<bar> < 1 / 2" by simp
  show "(9586981 / 67108864 :: real) = real_of_int 9586981 * 2 powi (- 3 - 23)" by simp
  show "\<bar>9586981 / 67108864 :: real\<bar> < 2 ^ 128" by simp
qed

lemma f32_div34: "div_f32 (Fin (10737419 / 1073741824)) (Fin (9395241 / 134217728)) = Fin (9586981 / 67108864)"
  by (simp add: div_f32_def f32_round35)

lemma f32_round37: "round_f32 (Fin (40265317 / 67108864)) = Fin (10066329 / 16777216)"
proof (rule round_f32_eqI [where e = "- 1" and m = 10066329])
  show "(2::real) powi - 1 \<le> 40265317 / 67108864" by simp
  show "(40265317 / 67108864 :: real) < 2 powi (- 1 + 1)" by simp
  show "- 126 \<le> (- 1 :: int)" by simp
  show "\<bar>40265317 / 67108864 / 2 powi (- 1 - 23) - real_of_int 10066329\<bar> < 1 / 2" by simp
  show "(10066329 / 16777216 :: real) = real_of_int 10066329 * 2 powi (- 1 - 23)" by simp
  show "\<bar>10066329 / 16777216 :: real\<bar> < 2 ^ 128" by simp
qed

lemma f32_sub36: "sub_f32 (Fin (11744051 / 16777216)) (Fin (6710887 / 67108864)) = Fin (10066329 / 16777216)"
  by (simp add: sub_f32_def f32_round37)

lemma f32_round39: "round_f32 (Fin (101330979536241 / 281474976710656)) = Fin (6039797 / 16777216)"
proof (rule round_f32_eqI [where e = "- 2" and m = 12079594])
  show "(2::real) powi - 2 \<le> 101330979536241 / 281474976710656" by simp
  show "(101330979536241 / 281474976710656 :: real) < 2 powi (- 2 + 1)" by simp
  show "- 126 \<le> (- 2 :: int)" by simp
  show "\<bar>101330979536241 / 281474976710656 / 2 powi (- 2 - 23) - real_of_int 12079594\<bar> < 1 / 2" by simp
  show "(6039797 / 16777216 :: real) = real_of_int 12079594 * 2 powi (- 2 - 23)" by simp
  show "\<bar>6039797 / 16777216 :: real\<bar> < 2 ^ 128" by simp
qed

lemma f32_pow38: "pow_f32 (Fin (10066329 / 16777216)) 2 = Fin (6039797 / 16777216)"
  by (simp add: pow_f32_def numeral_2_eq_2 f32_round39)

lemma f32_round41: "round_f32 (Fin (80530635 / 134217728)) = Fin (10066329 / 16777216)"
proof (rule round_f32_eqI [where e = "- 1" and m = 10066329])
  show "(2::real) powi - 1 \<le> 80530635 / 134217728" by simp
  show "(80530635 / 134217728 :: real) < 2 powi (- 1 + 1)" by simp
  show "- 126 \<le> (- 1 :: int)" by simp
  show "\<bar>80530635 / 134217728 / 2 powi (- 1 - 23) - real_of_int 10066329\<bar> < 1 / 2" by simp
  show "(10066329 / 16777216 :: real) = real_of_int 10066329 * 2 powi (- 1 - 23)" by simp
  show "\<bar>10066329 / 16777216 :: real\<bar> < 2 ^ 128" by simp
qed

lemma f32_sub40: "sub_f32 (Fin (11744051 / 16777216)) (Fin (13421773 / 134217728)) = Fin (10066329 / 16777216)"
  by (simp add: sub_f32_def f32_round41)

lemma f32_round43: "round_f32 (Fin (118219481158779 / 281474976710656)) = Fin (3523215 / 8388608)"
proof (rule round_f32_eqI [where e = "- 2" and m = 14092860])
  show "(2::real) powi - 2 \<le> 118219481158779 / 281474976710656" by simp
  show "(118219481158779 / 281474976710656 :: real) < 2 powi (- 2 + 1)" by simp
  show "- 126 \<le> (- 2 :: int)" by simp
  show "\<bar>118219481158779 / 281474976710656 / 2 powi (- 2 - 23) - real_of_int 14092860\<bar> < 1 / 2" by simp
  show "(3523215 / 8388608 :: real) = real_of_int 14092860 * 2 powi (- 2 - 23)" by simp
  show "\<bar>3523215 / 8388608 :: real\<bar> < 2 ^ 128" by simp
qed

lemma f32_mul42: "mul_f32 (Fin (11744051 / 16777216)) (Fin (10066329 / 16777216)) = Fin (3523215 / 8388608)"
  by (simp add: mul_f32_def f32_round43)

lemma f32_round45: "round_f32 (Fin (6039797 / 7046430)) = Fin (14380471 / 16777216)"
proof (rule round_f32_eqI [where e = "- 1" and m = 14380471])
  show "(2::real) powi - 1 \<le> 6039797 / 7046430" by simp
  show "(6039797 / 7046430 :: real) < 2 powi (- 1 + 1)" by simp
  show "- 126 \<le> (- 1 :: int)" by simp
  show "\<bar>6039797 / 7046430 / 2 powi (- 1 - 23) - real_of_int 14380471\<bar> < 1 / 2" by simp
  show "(14380471 / 16777216 :: real) = real_of_int 14380471 * 2 powi (- 1 - 23)" by simp
  show "\<bar>14380471 / 16777216 :: real\<bar> < 2 ^ 128" by simp
qed

lemma f32_div44: "div_f32 (Fin (6039797 / 16777216)) (Fin (3523215 / 8388608)) = Fin (14380471 / 16777216)"
  by (simp add: div_f32_def f32_round45)

lemma f32_round47: "round_f32 (Fin (2396745 / 16777216)) = Fin (2396745 / 16777216)"
proof (rule round_f32_eqI [where e = "- 3" and m = 9586980])
  show "(2::real) powi - 3 \<le> 2396745 / 16777216" by simp
  show "(2396745 / 16777216 :: real) < 2 powi (- 3 + 1)" by simp
  show "- 126 \<le> (- 3 :: int)" by simp
  show "\<bar>2396745 / 16777216 / 2 powi (- 3 - 23) - real_of_int 9586980\<bar> < 1 / 2" by simp
  show "(2396745 / 16777216 :: real) = real_of_int 9586980 * 2 powi (- 3 - 23)" by simp
  show "\<bar>2396745 / 16777216 :: real\<bar> < 2 ^ 128" by simp
qed

lemma f32_sub46: "sub_f32 (Fin 1) (Fin (14380471 / 16777216)) = Fin (2396745 / 16777216)"
  by (simp add: sub_f32_def f32_round47)

lemma f32_sub48: "sub_f32 (Fin 18446744073709551616) (Fin 0) = Fin 18446744073709551616"
  by (simp add: sub_f32_def f32_round21)

lemma f32_round50: "round_f32 (Fin (340282366920938463463374607431768211456)) = PInf"
proof -
  have "round_real (340282366920938463463374607431768211456) = real_of_int 8388608 * 2 powi (128 - 23)"
  proof (rule round_real_eqI)
    show "(2::real) powi 128 \<le> 340282366920938463463374607431768211456" by simp
    show "(340282366920938463463374607431768211456 :: real) < 2 powi (128 + 1)" by simp
    show "- 126 \<le> (128 :: int)" by simp
    show "\<bar>340282366920938463463374607431768211456 / 2 powi (128 - 23) - real_of_int 8388608\<bar> < 1 / 2" by simp
  qed
  then show ?thesis by (simp add: round_f32.simps)
qed

lemma f32_pow49: "pow_f32 (Fin 18446744073709551616) 2 = PInf"
  by (simp add: pow_f32_def numeral_2_eq_2 f32_round50)

lemma f32_round52: "round_f32 (Fin (2722258935367507707706996859454145691648)) = PInf"
proof -
  have "round_real (2722258935367507707706996859454145691648) = real_of_int 8388608 * 2 powi (131 - 23)"
  proof (rule round_real_eqI)
    show "(2::real) powi 131 \<le> 2722258935367507707706996859454145691648" by simp
    show "(2722258935367507707706996859454145691648 :: real) < 2 powi (131 + 1)" by simp
    show "- 126 \<le> (131 :: int)" by simp
    show "\<bar>2722258935367507707706996859454145691648 / 2 powi (131 - 23) - real_of_int 8388608\<bar> < 1 / 2" by simp
  qed
  then show ?thesis by (simp add: round_f32.simps)
qed

lemma f32_mul51: "mul_f32 (Fin 73786976294838206464) (Fin 36893488147419103232) = PInf"
  by (simp add: mul_f32_def f32_round52)

lemma f32_round53: "round_f32 (Fin (13421773 / 33554432)) = Fin (13421773 / 33554432)"
proof (rule round_f32_eqI [where e = "- 2" and m = 13421773])
  show "(2::real) powi - 2 \<le> 13421773 / 33554432" by simp
  show "(13421773 / 33554432 :: real) < 2 powi (- 2 + 1)" by simp
  show "- 126 \<le> (- 2 :: int)" by simp
  show "\<bar>13421773 / 33554432 / 2 powi (- 2 - 23) - real_of_int 13421773\<bar> < 1 / 2" by simp
  show "(13421773 / 33554432 :: real) = real_of_int 13421773 * 2 powi (- 2 - 23)" by simp
  show "\<bar>13421773 / 33554432 :: real\<bar> < 2 ^ 128" by simp
qed

lemma f32_round54: "round_f32 (Fin (6710887 / 67108864)) = Fin (6710887 / 67108864)"
proof (rule round_f32_eqI [where e = "- 4" and m = 13421774])
  show "(2::real) powi - 4 \<le> 6710887 / 67108864" by simp
  show "(6710887 / 67108864 :: real) < 2 powi (- 4 + 1)" by simp
  show "- 126 \<le> (- 4 :: int)" by simp
  show "\<bar>6710887 / 67108864 / 2 powi (- 4 - 23) - real_of_int 13421774\<bar> < 1 / 2" by simp
  show "(6710887 / 67108864 :: real) = real_of_int 13421774 * 2 powi (- 4 - 23)" by simp
  show "\<bar>6710887 / 67108864 :: real\<bar> < 2 ^ 128" by simp
qed

text \<open>The four results.\<close>

lemma rsample_elem_f32_ulp:
  "rsample_elem_f32 (Fin (13421773 / 134217728)) (Fin (13421773 / 33554432))
     (Fin (13421773 / 134217728)) (Fin 0) = Fin (3355443 / 33554432)"
  by (simp add: rsample_elem_f32_def f32_sub1 f32_sub3 f32_div4 f32_sub5 f32_mul7 f32_mul9 f32_sqrt11 f32_sub12 f32_sub14 f32_sub16 f32_div18 f32_mul20 f32_mul22 f32_sqrt24 f32_add25 f32_sub26 f32_sub28 f32_pow30 f32_mul32 f32_div34 f32_sub36 f32_pow38 f32_sub40 f32_mul42 f32_div44 f32_sub46 f32_sub48 f32_pow49 f32_mul51)


lemma cdf_elem_f32_at_peak:
  "cdf_elem_f32 (Fin 0) (Fin (11744051 / 16777216)) (Fin (13421773 / 134217728))
     (Fin (13421773 / 134217728)) = Fin (9586981 / 67108864)"
  by (simp add: cdf_elem_f32_def f32_sub1 f32_sub3 f32_div4 f32_sub5 f32_mul7 f32_mul9 f32_sqrt11 f32_sub12 f32_sub14 f32_sub16 f32_div18 f32_mul20 f32_mul22 f32_sqrt24 f32_add25 f32_sub26 f32_sub28 f32_pow30 f32_mul32 f32_div34 f32_sub36 f32_pow38 f32_sub40 f32_mul42 f32_div44 f32_sub46 f32_sub48 f32_pow49 f32_mul51)

lemma cdf_elem_f32_after_peak:
  "cdf_elem_f32 (Fin 0) (Fin (11744051 / 16777216)) (Fin (13421773 / 134217728))
     (Fin (6710887 / 67108864)) = Fin (2396745 / 16777216)"
  by (simp add: cdf_elem_f32_def f32_sub1 f32_sub3 f32_div4 f32_sub5 f32_mul7 f32_mul9 f32_sqrt11 f32_sub12 f32_sub14 f32_sub16 f32_div18 f32_mul20 f32_mul22 f32_sqrt24 f32_add25 f32_sub26 f32_sub28 f32_pow30 f32_mul32 f32_div34 f32_sub36 f32_pow38 f32_sub40 f32_mul42 f32_div44 f32_sub46 f32_sub48 f32_pow49 f32_mul51)

lemma cdf_elem_f32_overflow:
  "cdf_elem_f32 (Fin 0) (Fin (2 ^ 66)) (Fin (2 ^ 65)) (Fin (2 ^ 64)) = NaN"
  by (simp add: cdf_elem_f32_def div_f32_def f32_sub1 f32_sub3 f32_div4 f32_sub5 f32_mul7 f32_mul9 f32_sqrt11 f32_sub12 f32_sub14 f32_sub16 f32_div18 f32_mul20 f32_mul22 f32_sqrt24 f32_add25 f32_sub26 f32_sub28 f32_pow30 f32_mul32 f32_div34 f32_sub36 f32_pow38 f32_sub40 f32_mul42 f32_div44 f32_sub46 f32_sub48 f32_pow49 f32_mul51)

lemma representable_examples:
  "representable_f32 (Fin 0)" "representable_f32 (Fin 1)"
  "representable_f32 (Fin (13421773 / 134217728))"
  "representable_f32 (Fin (13421773 / 33554432))"
  "representable_f32 (Fin (11744051 / 16777216))"
  "representable_f32 (Fin (6710887 / 67108864))"
  "representable_f32 (Fin 18446744073709551616)" "representable_f32 (Fin 36893488147419103232)"
  "representable_f32 (Fin 73786976294838206464)"
  by (simp_all add: representable_f32_def f32_round6 f32_round29 f32_round53 f32_round27 f32_round54 f32_round15 f32_round17 f32_round21)

section \<open>Bounds that rounding preserves\<close>

text \<open>
  A square root is never negative, so adding it does not go below the first operand
  and subtracting it does not go above, and monotone rounding keeps this when the
  operand is a binary32 number.
\<close>

lemma round_f32_nonneg: "Fin 0 \<le> a \<Longrightarrow> Fin 0 \<le> round_f32 a"
  using round_f32_mono [of "Fin 0" a] by simp






lemma rsample_elem_f32_second:
  "rsample_elem_f32 l h l (Fin 0) =
     sub_f32 h (sqrt_f32 (mul_f32 (mul_f32 (sub_f32 (Fin 1) (Fin 0)) (sub_f32 h l)) (sub_f32 h l)))"
proof -
  have x: "sub_f32 l l = NaN \<or> sub_f32 l l = Fin 0"
    by (cases l) (simp_all add: sub_f32_def minus_fl_def)
  have "\<not> Fin 0 < div_f32 (sub_f32 l l) (sub_f32 h l)"
  proof -
    from x show ?thesis
    proof
      assume "sub_f32 l l = NaN"
      then show ?thesis by (simp add: div_f32_def)
    next
      assume z: "sub_f32 l l = Fin 0"
      show ?thesis
        unfolding z div_f32_def by (cases "sub_f32 h l") auto
    qed
  qed
  then show ?thesis by (simp add: rsample_elem_f32_def)
qed

lemma rsample_elem_f32_exact:
  assumes "a < b" and "representable_f32 (Fin a)" and "representable_f32 (Fin (b - a))"
    and "representable_f32 (Fin ((b - a) * (b - a)))"
  shows "rsample_elem_f32 (Fin a) (Fin b) (Fin a) (Fin 0) = Fin a"
proof -
  have s: "sqrt ((b - a) * (b - a)) = b - a" using assms(1) by simp
  have "sub_f32 (Fin b) (Fin a) = Fin (b - a)"
    using assms(3) by (simp add: sub_f32_def representable_f32_def)
  moreover have "sub_f32 (Fin 1) (Fin 0) = Fin 1"
    by (simp add: sub_f32_def round_f32_one)
  moreover have "mul_f32 (Fin 1) (Fin (b - a)) = Fin (b - a)"
    using assms(3) by (simp add: mul_f32_def representable_f32_def)
  moreover have "mul_f32 (Fin (b - a)) (Fin (b - a)) = Fin ((b - a) * (b - a))"
    using assms(4) by (simp add: mul_f32_def representable_f32_def)
  moreover have "sqrt_f32 (Fin ((b - a) * (b - a))) = Fin (b - a)"
    using assms(1,3) by (simp add: sqrt_f32_def representable_f32_def s)
  moreover have "sub_f32 (Fin b) (Fin (b - a)) = Fin a"
    using assms(2) by (simp add: sub_f32_def representable_f32_def)
  ultimately show ?thesis
    by (simp add: rsample_elem_f32_second)
qed

text \<open>
  Each operation of a leg of \<open>cdf_f32\<close> is monotone in the value, up to results that
  are not numbers.
\<close>

lemma fl_pow2_mono:
  assumes "Fin 0 \<le> y1" and "y1 \<le> y2"
  shows "fl_pow y1 2 \<le> fl_pow y2 2" and "Fin 0 \<le> fl_pow y1 2"
proof -
  show "fl_pow y1 2 \<le> fl_pow y2 2"
    using assms by (cases y1; cases y2) (auto simp: numeral_2_eq_2 mult_mono)
  show "Fin 0 \<le> fl_pow y1 2"
    using assms(1) by (cases y1) (auto simp: numeral_2_eq_2)
qed

lemma fl_div_mono:
  assumes "Fin 0 \<le> a1" and "a1 \<le> a2" and "Fin 0 \<le> D"
    and "a1 / D \<noteq> NaN" and "a2 / D \<noteq> NaN"
  shows "a1 / D \<le> a2 / D" and "Fin 0 \<le> a1 / D"
proof -
  show "a1 / D \<le> a2 / D"
    using assms by (cases a1; cases a2; cases D) (auto simp: divide_right_mono split: if_splits)
  show "Fin 0 \<le> a1 / D"
    using assms(1,3,4) by (cases a1; cases D) (auto split: if_splits)
qed

lemma fl_one_minus_mono:
  assumes "Fin 0 \<le> q2" and "q2 \<le> q1"
  shows "Fin 1 - q1 \<le> Fin 1 - q2" and "Fin 1 - q2 \<le> Fin 1"
proof -
  show "Fin 1 - q1 \<le> Fin 1 - q2"
    using assms by (cases q1; cases q2) (auto simp: minus_fl_def)
  show "Fin 1 - q2 \<le> Fin 1"
    using assms(1) by (cases q2) (auto simp: minus_fl_def)
qed

lemma fl_mul_nonneg:
  assumes "Fin 0 \<le> a" and "Fin 0 \<le> b"
  shows "a * b = NaN \<or> Fin 0 \<le> a * b"
  using assms by (cases a; cases b) auto

lemma sub_f32_nonneg: "y \<le> x \<Longrightarrow> Fin 0 \<le> sub_f32 (Fin x) (Fin y)"
  unfolding sub_f32_def by (intro round_f32_nonneg) simp

lemma sub_f32_mono_left: "x1 \<le> x2 \<Longrightarrow> sub_f32 (Fin x1) (Fin l) \<le> sub_f32 (Fin x2) (Fin l)"
  unfolding sub_f32_def by (intro round_f32_mono) simp

lemma sub_f32_mono_right: "x1 \<le> x2 \<Longrightarrow> sub_f32 (Fin h) (Fin x2) \<le> sub_f32 (Fin h) (Fin x1)"
  unfolding sub_f32_def by (intro round_f32_mono) simp

lemma pow_f32_mono:
  assumes "Fin 0 \<le> y1" and "y1 \<le> y2"
  shows "pow_f32 y1 2 \<le> pow_f32 y2 2" and "Fin 0 \<le> pow_f32 y1 2"
  unfolding pow_f32_def
  using fl_pow2_mono [OF assms] by (auto intro: round_f32_mono round_f32_nonneg)

lemma mul_f32_nonneg:
  assumes "Fin 0 \<le> a" and "Fin 0 \<le> b"
  shows "mul_f32 a b = NaN \<or> Fin 0 \<le> mul_f32 a b"
  using fl_mul_nonneg [OF assms] unfolding mul_f32_def
  by (auto intro: round_f32_nonneg)

lemma div_f32_mono:
  assumes "Fin 0 \<le> a1" and "a1 \<le> a2" and "Fin 0 \<le> D"
    and "div_f32 a1 D \<noteq> NaN" and "div_f32 a2 D \<noteq> NaN"
  shows "div_f32 a1 D \<le> div_f32 a2 D" and "Fin 0 \<le> div_f32 a1 D"
proof -
  have n: "a1 / D \<noteq> NaN" "a2 / D \<noteq> NaN"
    using assms(4,5) by (auto simp: div_f32_def)
  note m = fl_div_mono [OF assms(1-3) n]
  show "div_f32 a1 D \<le> div_f32 a2 D"
    unfolding div_f32_def using m(1) by (rule round_f32_mono)
  show "Fin 0 \<le> div_f32 a1 D"
    unfolding div_f32_def using m(2) by (rule round_f32_nonneg)
qed

lemma one_minus_f32_mono:
  assumes "Fin 0 \<le> q2" and "q2 \<le> q1"
  shows "sub_f32 (Fin 1) q1 \<le> sub_f32 (Fin 1) q2" and "sub_f32 (Fin 1) q2 \<le> Fin 1"
proof -
  note m = fl_one_minus_mono [OF assms]
  show "sub_f32 (Fin 1) q1 \<le> sub_f32 (Fin 1) q2"
    unfolding sub_f32_def using m(1) by (rule round_f32_mono)
  have "round_f32 (Fin 1 - q2) \<le> round_f32 (Fin 1)"
    using m(2) by (rule round_f32_mono)
  then show "sub_f32 (Fin 1) q2 \<le> Fin 1"
    by (simp add: sub_f32_def round_f32_one)
qed

lemma fl_div_NaN: "x / NaN = (NaN::fl)"
  by (cases x) auto

lemma fl_le_self: "Fin 0 \<le> a \<Longrightarrow> a \<le> a"
  by (cases a) auto

lemma cdf_elem_f32_left_mono:
  assumes lp: "l < p" and ph: "p < h" and x: "l \<le> x1" "x1 \<le> x2" "x2 \<le> p"
  shows "cdf_elem_f32 (Fin l) (Fin h) (Fin p) (Fin x1) = NaN \<or>
         cdf_elem_f32 (Fin l) (Fin h) (Fin p) (Fin x2) = NaN \<or>
         cdf_elem_f32 (Fin l) (Fin h) (Fin p) (Fin x1) \<le> cdf_elem_f32 (Fin l) (Fin h) (Fin p) (Fin x2)"
proof -
  let ?D = "mul_f32 (sub_f32 (Fin h) (Fin l)) (sub_f32 (Fin p) (Fin l))"
  let ?A = "\<lambda>x. div_f32 (pow_f32 (sub_f32 (Fin x) (Fin l)) 2) ?D"
  have leg: "cdf_elem_f32 (Fin l) (Fin h) (Fin p) (Fin x) = ?A x" if "l < x" "x \<le> p" for x
    using that ph by (simp add: cdf_elem_f32_def)
  have bot: "cdf_elem_f32 (Fin l) (Fin h) (Fin p) (Fin l) = Fin 0"
    using lp ph by (simp add: cdf_elem_f32_def)
  have D: "?D = NaN \<or> Fin 0 \<le> ?D"
    using lp ph by (intro mul_f32_nonneg sub_f32_nonneg) auto
  have num: "Fin 0 \<le> pow_f32 (sub_f32 (Fin x) (Fin l)) 2" if "l \<le> x" for x
    using that by (intro pow_f32_mono(2) [OF _ fl_le_self] sub_f32_nonneg)
  show ?thesis
  proof (cases "?D = NaN")
    case True
    have nan: "?A x2 = NaN" by (simp add: True div_f32_def fl_div_NaN)
    show ?thesis
    proof (cases "l < x2")
      case True
      then show ?thesis using leg [of x2] nan x by simp
    next
      case False
      then have "x1 = l" "x2 = l" using x by linarith+
      then show ?thesis using bot by simp
    qed
  next
    case False
    then have Dpos: "Fin 0 \<le> ?D" using D by blast
    show ?thesis
    proof (cases "l < x1")
      case True
      then have x2: "l < x2" using x by linarith
      show ?thesis
      proof (cases "?A x1 = NaN \<or> ?A x2 = NaN")
        case True
        then show ?thesis using leg [of x1] leg [of x2] \<open>l < x1\<close> x2 x by auto
      next
        case False
        have "sub_f32 (Fin x1) (Fin l) \<le> sub_f32 (Fin x2) (Fin l)"
          using x(2) by (rule sub_f32_mono_left)
        then have "pow_f32 (sub_f32 (Fin x1) (Fin l)) 2 \<le> pow_f32 (sub_f32 (Fin x2) (Fin l)) 2"
          using x(1) by (intro pow_f32_mono(1) sub_f32_nonneg)
        then have "?A x1 \<le> ?A x2"
          using False Dpos x(1) by (intro div_f32_mono(1) num) auto
        then show ?thesis using leg [of x1] leg [of x2] \<open>l < x1\<close> x2 x by auto
      qed
    next
      case False
      then have x1: "x1 = l" using x by linarith
      show ?thesis
      proof (cases "l < x2")
        case True
        show ?thesis
        proof (cases "?A x2 = NaN")
          case True
          then show ?thesis using leg [of x2] \<open>l < x2\<close> x by auto
        next
          case False
          have "Fin 0 \<le> ?A x2"
            using False Dpos True by (intro div_f32_mono(2) [OF _ fl_le_self] num) auto
          then show ?thesis using leg [of x2] True x bot x1 by auto
        qed
      next
        case False
        then have "x2 = l" using x x1 by linarith
        then show ?thesis using bot x1 by simp
      qed
    qed
  qed
qed

lemma sub_f32_NaN: "sub_f32 (Fin 1) NaN = NaN"
  by (simp add: sub_f32_def minus_fl_def)

lemma cdf_elem_f32_right_mono:
  assumes lp: "l < p" and ph: "p < h" and x: "p < x1" "x1 \<le> x2" "x2 \<le> h"
  shows "cdf_elem_f32 (Fin l) (Fin h) (Fin p) (Fin x1) = NaN \<or>
         cdf_elem_f32 (Fin l) (Fin h) (Fin p) (Fin x2) = NaN \<or>
         cdf_elem_f32 (Fin l) (Fin h) (Fin p) (Fin x1) \<le> cdf_elem_f32 (Fin l) (Fin h) (Fin p) (Fin x2)"
proof -
  let ?D = "mul_f32 (sub_f32 (Fin h) (Fin l)) (sub_f32 (Fin h) (Fin p))"
  let ?Q = "\<lambda>x. div_f32 (pow_f32 (sub_f32 (Fin h) (Fin x)) 2) ?D"
  let ?B = "\<lambda>x. sub_f32 (Fin 1) (?Q x)"
  have leg: "cdf_elem_f32 (Fin l) (Fin h) (Fin p) (Fin x) = ?B x" if "p < x" "x < h" for x
    using that lp by (simp add: cdf_elem_f32_def)
  have top: "cdf_elem_f32 (Fin l) (Fin h) (Fin p) (Fin h) = Fin 1"
    by (simp add: cdf_elem_f32_def)
  have D: "?D = NaN \<or> Fin 0 \<le> ?D"
    using lp ph by (intro mul_f32_nonneg sub_f32_nonneg) auto
  have num: "Fin 0 \<le> pow_f32 (sub_f32 (Fin h) (Fin x)) 2" if "x \<le> h" for x
    using that by (intro pow_f32_mono(2) [OF _ fl_le_self] sub_f32_nonneg)
  have Qnan: "?B x = NaN" if "?Q x = NaN" for x
    using that by (simp add: sub_f32_NaN)
  show ?thesis
  proof (cases "x1 < h")
    case False
    then have "x1 = h" "x2 = h" using x by linarith+
    then show ?thesis using top by simp
  next
    case x1: True
    show ?thesis
    proof (cases "?D = NaN \<or> ?Q x1 = NaN")
      case True
      then have "?Q x1 = NaN" by (auto simp: div_f32_def fl_div_NaN)
      then show ?thesis using leg [of x1] x x1 Qnan by simp
    next
      case False
      then have Dpos: "Fin 0 \<le> ?D" and q1: "?Q x1 \<noteq> NaN" using D by blast+
      show ?thesis
      proof (cases "x2 < h")
        case False
        then have x2: "x2 = h" using x by linarith
        have n1: "Fin 0 \<le> pow_f32 (sub_f32 (Fin h) (Fin x1)) 2"
          using x1 by (intro num) simp
        have q0: "Fin 0 \<le> ?Q x1"
          by (rule div_f32_mono(2) [OF n1 fl_le_self [OF n1] Dpos q1 q1])
        have "?B x1 \<le> Fin 1" by (rule one_minus_f32_mono(2) [OF q0 fl_le_self [OF q0]])
        then show ?thesis using leg [of x1] x x1 top x2 by simp
      next
        case x2: True
        show ?thesis
        proof (cases "?Q x2 = NaN")
          case True
          then show ?thesis using leg [of x2] x x2 Qnan by simp
        next
          case q2: False
          have "sub_f32 (Fin h) (Fin x2) \<le> sub_f32 (Fin h) (Fin x1)"
            using x(2) by (rule sub_f32_mono_right)
          then have "pow_f32 (sub_f32 (Fin h) (Fin x2)) 2 \<le> pow_f32 (sub_f32 (Fin h) (Fin x1)) 2"
            using x(3) by (intro pow_f32_mono(1) sub_f32_nonneg)
          then have le: "?Q x2 \<le> ?Q x1"
            by (rule div_f32_mono(1) [OF num [OF x(3)] _ Dpos q2 q1])
          have "Fin 0 \<le> ?Q x2"
            by (rule div_f32_mono(2) [OF num [OF x(3)] fl_le_self [OF num [OF x(3)]] Dpos q2 q2])
          then have "?B x1 \<le> ?B x2" using le by (rule one_minus_f32_mono(1))
          then show ?thesis using leg [of x1] leg [of x2] x x1 x2 by simp
        qed
      qed
    qed
  qed
qed

section \<open>Claims\<close>

subsection \<open>C1: the three branches of log_prob\<close>



subsection \<open>C2: shape and elements of rsample\<close>



subsection \<open>C3: the clamps of cdf\<close>

text \<open>
  C3. For every valid parameterization, at each element \<open>cdf\<close> is 1 where
  \<open>value \<ge> high\<close>, otherwise 0 where \<open>value \<le> low\<close>, otherwise the interior
  formula: the clamp at \<open>high\<close> is applied last and wins over the clamp at \<open>low\<close>,
  which wins over the interior value. In particular \<open>cdf\<close> is exactly 0 at
  \<open>value = low\<close> and exactly 1 at \<open>value = high\<close>.
\<close>

theorem cdf_clamps:
  assumes "valid_params d"
    and "broadcast_shape (shape v) (batch_shape d) = Some s"
    and "valid_index s i"
  shows "\<exists>r. cdf d v = Ok r \<and> shape r = s \<and>
     (high_at d i \<le> value_at v i \<longrightarrow> elt r i = Fin 1) \<and>
     (\<not> high_at d i \<le> value_at v i \<and> value_at v i \<le> low_at d i \<longrightarrow> elt r i = Fin 0) \<and>
     (\<not> high_at d i \<le> value_at v i \<and> \<not> value_at v i \<le> low_at d i \<longrightarrow>
        elt r i =
          (if low_at d i < value_at v i \<and> value_at v i \<le> peak_at d i
           then fl_pow (value_at v i - low_at d i) 2 /
                  ((high_at d i - low_at d i) * (peak_at d i - low_at d i))
           else Fin 1 - fl_pow (high_at d i - value_at v i) 2 /
                  ((high_at d i - low_at d i) * (high_at d i - peak_at d i)))) \<and>
     (value_at v i = low_at d i \<longrightarrow> elt r i = Fin 0) \<and>
     (value_at v i = high_at d i \<longrightarrow> elt r i = Fin 1)"
proof -
  have wf: "well_formed d" using assms(1) by (simp add: valid_params_def)
  have ex: "expandable (batch_shape d) s"
    using assms(2) broadcast_shape_expandable by blast
  note ord = valid_params_at [OF assms(1) ex assms(3)]
  from cdf_at [OF wf assms(2)] obtain r where r: "cdf d v = Ok r" "shape r = s"
    "\<And>i. elt r i = cdf_elem (low_at d i) (high_at d i) (peak_at d i) (value_at v i)"
    by blast
  have lo: "value_at v i = low_at d i \<longrightarrow> elt r i = Fin 0"
    using cdf_elem_low [OF ord(1), of "peak_at d i"] by (simp add: r(3))
  have hi: "value_at v i = high_at d i \<longrightarrow> elt r i = Fin 1"
    using cdf_elem_high [OF ord(1), of "peak_at d i"] by (simp add: r(3))
  show ?thesis
    using r(1,2) lo hi by (simp add: r(3) cdf_elem_def)
qed

theorem cdf_clamps_witness:
  "valid_params (scalar_triangular 0 1 (1 / 2)) \<and> valid_index [] [] \<and>
   (\<exists>r. cdf (scalar_triangular 0 1 (1 / 2)) (as_tensor (Number (Fin 0))) = Ok r \<and>
        elt r [] = Fin 0) \<and>
   (\<exists>r. cdf (scalar_triangular 0 1 (1 / 2)) (as_tensor (Number (Fin 1))) = Ok r \<and>
        elt r [] = Fin 1) \<and>
   (\<exists>r. cdf (scalar_triangular 0 1 (1 / 2)) (as_tensor (Number (Fin (1 / 4)))) = Ok r \<and>
        elt r [] = Fin (1 / 8)) \<and>
   (\<exists>r. cdf (scalar_triangular 0 1 (1 / 2)) (as_tensor (Number (Fin (3 / 4)))) = Ok r \<and>
        elt r [] = Fin (7 / 8))"
proof -
  have v: "valid_params (scalar_triangular 0 1 (1 / 2))"
    by (simp add: scalar_triangular_valid)
  have i: "valid_index [] []" by (simp add: valid_index_def)
  have b: "broadcast_shape (shape (as_tensor (Number x)))
      (batch_shape (scalar_triangular 0 1 (1 / 2))) = Some []" for x
    by (simp add: scalar_triangular_at broadcast_shape_same)
  show ?thesis
    using v i cdf_clamps [OF v b i, of "Fin 0"] cdf_clamps [OF v b i, of "Fin 1"]
      cdf_clamps [OF v b i, of "Fin (1 / 4)"] cdf_clamps [OF v b i, of "Fin (3 / 4)"]
    by (auto simp: scalar_triangular_at value_at_def bproj_Nil numeral_2_eq_2)
qed

subsection \<open>C4: validation in the constructor\<close>

text \<open>
  C4. The claim is that, with validation enabled, the constructor fails if and only
  if some batch element violates \<open>low < high\<close>, \<open>low \<le> peak\<close> or \<open>peak \<le> high\<close>, with an
  error whose message names the violated constraint. The equivalence holds. The
  message does not always name one of the three constraints: the base class checks
  \<open>low\<close> against \<open>constraints.real\<close> first, so a NaN in \<open>low\<close> raises
  "The parameter low has invalid values". Otherwise the message names the first
  violated constraint in the order "low >= high", "peak < low", "peak > high", and
  without a violation the constructor returns the instance. The arguments are
  assumed to broadcast.
\<close>

theorem Triangular_init_validation:
  assumes "broadcast_all low_arg high_arg peak_arg = Inr (l, h, p)"
    and "validation_enabled dflt validate_args"
  shows "Triangular_init dflt low_arg high_arg peak_arg validate_args =
     (if \<not> list_all (\<lambda>i. elt l i \<noteq> NaN) (indices (shape l))
      then Inl (ValueError ''The parameter low has invalid values'')
      else if \<not> list_all (\<lambda>i. elt l i < elt h i) (indices (shape l))
      then Inl (ValueError ''Triangular is not defined when low >= high'')
      else if \<not> list_all (\<lambda>i. elt l i \<le> elt p i) (indices (shape l))
      then Inl (ValueError ''Triangular is not defined when peak < low'')
      else if \<not> list_all (\<lambda>i. elt p i \<le> elt h i) (indices (shape l))
      then Inl (ValueError ''Triangular is not defined when peak > high'')
      else Inr \<lparr>low = l, high = h, peak = p,
                batch_shape = (if is_Number low_arg \<and> is_Number high_arg \<and> is_Number peak_arg
                               then [] else shape l),
                event_shape = [],
                dict_validate_args = (if validate_args = PyNone then None else Some validate_args)\<rparr>)
     \<and>
     ((\<exists>e. Triangular_init dflt low_arg high_arg peak_arg validate_args = Inl e) \<longleftrightarrow>
      (\<exists>i \<in> set (indices (shape l)).
         \<not> (elt l i < elt h i \<and> elt l i \<le> elt p i \<and> elt p i \<le> elt h i)))"
proof -
  note eq = Triangular_init_checked [OF assms, unfolded fl_eq_refl_iff]
  have nan: "\<exists>i \<in> set (indices (shape l)). \<not> elt l i < elt h i"
    if "\<not> list_all (\<lambda>i. elt l i \<noteq> NaN) (indices (shape l))"
  proof -
    from that obtain i where i: "i \<in> set (indices (shape l))" "elt l i = NaN"
      by (auto simp: list_all_iff)
    then have "\<not> elt l i < elt h i" by simp
    with i(1) show ?thesis by blast
  qed
  have "(\<exists>e. Triangular_init dflt low_arg high_arg peak_arg validate_args = Inl e) \<longleftrightarrow>
      (\<exists>i \<in> set (indices (shape l)).
         \<not> (elt l i < elt h i \<and> elt l i \<le> elt p i \<and> elt p i \<le> elt h i))"
    unfolding eq using nan by (auto simp: list_all_iff)
  with eq show ?thesis by blast
qed

theorem Triangular_init_validation_witness:
  "validation_enabled False (PyBool True) \<and>
   Triangular_init False (Number (Fin 1)) (Number (Fin 0)) (Number (Fin (1 / 2))) (PyBool True) =
     Inl (ValueError ''Triangular is not defined when low >= high'') \<and>
   Triangular_init False (Number (Fin 0)) (Number (Fin 1)) (Number (Fin (- 1 / 10))) (PyBool True) =
     Inl (ValueError ''Triangular is not defined when peak < low'') \<and>
   Triangular_init False (Number (Fin 0)) (Number (Fin 1)) (Number (Fin (11 / 10))) (PyBool True) =
     Inl (ValueError ''Triangular is not defined when peak > high'') \<and>
   (\<exists>d. Triangular_init False (Number (Fin 0)) (Number (Fin 1)) (Number (Fin (1 / 2)))
          (PyBool True) = Inr d \<and> valid_params d)"
proof -
  have en: "validation_enabled False (PyBool True)"
    by (simp add: validation_enabled_def)
  show ?thesis
    using en
      Triangular_init_validation [OF broadcast_all_numbers en, of "Fin 1" "Fin 0" "Fin (1 / 2)"]
      Triangular_init_validation [OF broadcast_all_numbers en, of "Fin 0" "Fin 1" "Fin (- 1 / 10)"]
      Triangular_init_validation [OF broadcast_all_numbers en, of "Fin 0" "Fin 1" "Fin (11 / 10)"]
      Triangular_init_validation [OF broadcast_all_numbers en, of "Fin 0" "Fin 1" "Fin (1 / 2)"]
    by (simp add: valid_params_def well_formed_def)
qed

text \<open>
  With validation enabled, \<open>Triangular(nan, 1., 0.5)\<close> fails with the message of the
  base class, which is none of the three messages of the claim.
\<close>

theorem Triangular_init_nan_low_counterexample:
  "validation_enabled False (PyBool True) \<and>
   Triangular_init False (Number NaN) (Number (Fin 1)) (Number (Fin (1 / 2))) (PyBool True) =
     Inl (ValueError ''The parameter low has invalid values'') \<and>
   Triangular_init False (Number NaN) (Number (Fin 1)) (Number (Fin (1 / 2))) (PyBool True) \<noteq>
     Inl (ValueError ''Triangular is not defined when low >= high'') \<and>
   Triangular_init False (Number NaN) (Number (Fin 1)) (Number (Fin (1 / 2))) (PyBool True) \<noteq>
     Inl (ValueError ''Triangular is not defined when peak < low'') \<and>
   Triangular_init False (Number NaN) (Number (Fin 1)) (Number (Fin (1 / 2))) (PyBool True) \<noteq>
     Inl (ValueError ''Triangular is not defined when peak > high'')"
proof -
  have en: "validation_enabled False (PyBool True)"
    by (simp add: validation_enabled_def)
  show ?thesis
    using en Triangular_init_checked [OF broadcast_all_numbers en, of NaN "Fin 1" "Fin (1 / 2)"]
    by simp
qed

subsection \<open>C5: entropy\<close>

text \<open>
  C5. The claim is that accessing \<open>entropy\<close> returns
  \<open>0.5 - log 2 + log (high - low)\<close> and does not fail. The body applies
  \<open>torch.log\<close> to the Python float \<open>2.\<close>, so every access raises a \<open>TypeError\<close>
  before the parameters are read; \<open>log_prob\<close> takes the same logarithm as
  \<open>torch.tensor(2.0).log()\<close>.
\<close>

theorem entropy_raises_TypeError:
  "entropy d = Raise (TypeError ''log(): argument input (position 1) must be Tensor, not float'')"
  by (simp add: entropy_def number_def plus_tval_def minus_tval_def broadcast2_def)

subsection \<open>C6: cdf is non-decreasing\<close>

text \<open>
  C6. The claim is that \<open>cdf(v1) \<le> cdf(v2)\<close> for \<open>low < peak < high\<close> and
  \<open>v1 \<le> v2\<close> in \<open>[low, high]\<close>. In exact arithmetic it holds (lemma
  \<open>cdf_elem_mono\<close>). In binary32 it holds on each leg: for \<open>v1 \<le> v2\<close> both in
  \<open>[low, peak]\<close> or both in \<open>(peak, high]\<close>, \<open>cdf(v1) \<le> cdf(v2)\<close> unless one of the two
  values is NaN.
\<close>

theorem cdf_f32_nondecreasing_on_legs:
  assumes "well_formed d"
    and "broadcast_shape (shape v1) (batch_shape d) = Some s"
    and "broadcast_shape (shape v2) (batch_shape d) = Some s"
    and "low_at d i = Fin l" and "high_at d i = Fin h" and "peak_at d i = Fin p"
    and "l < p" and "p < h"
    and "value_at v1 i = Fin x1" and "value_at v2 i = Fin x2"
    and "l \<le> x1 \<and> x1 \<le> x2 \<and> x2 \<le> p \<or> p < x1 \<and> x1 \<le> x2 \<and> x2 \<le> h"
  shows "\<exists>r1 r2. cdf_f32 d v1 = Ok r1 \<and> cdf_f32 d v2 = Ok r2 \<and>
     (elt r1 i = NaN \<or> elt r2 i = NaN \<or> elt r1 i \<le> elt r2 i)"
proof -
  from cdf_f32_at [OF assms(1,2)] obtain r1 where r1: "cdf_f32 d v1 = Ok r1"
    "\<And>i. elt r1 i = cdf_elem_f32 (low_at d i) (high_at d i) (peak_at d i) (value_at v1 i)"
    by blast
  from cdf_f32_at [OF assms(1,3)] obtain r2 where r2: "cdf_f32 d v2 = Ok r2"
    "\<And>i. elt r2 i = cdf_elem_f32 (low_at d i) (high_at d i) (peak_at d i) (value_at v2 i)"
    by blast
  have "elt r1 i = NaN \<or> elt r2 i = NaN \<or> elt r1 i \<le> elt r2 i"
    using assms(11)
  proof
    assume "l \<le> x1 \<and> x1 \<le> x2 \<and> x2 \<le> p"
    then show ?thesis
      using cdf_elem_f32_left_mono [of l p h x1 x2] assms(4-10) by (simp add: r1(2) r2(2))
  next
    assume "p < x1 \<and> x1 \<le> x2 \<and> x2 \<le> h"
    then show ?thesis
      using cdf_elem_f32_right_mono [of l p h x1 x2] assms(4-10) by (simp add: r1(2) r2(2))
  qed
  with r1(1) r2(1) show ?thesis by blast
qed

theorem cdf_f32_nondecreasing_on_legs_witness:
  "well_formed (scalar_triangular 0 (11744051 / 16777216) (13421773 / 134217728)) \<and>
   (0::real) < 13421773 / 134217728 \<and> (13421773 / 134217728 :: real) < 11744051 / 16777216 \<and>
   (\<exists>r1 r2.
       cdf_f32 (scalar_triangular 0 (11744051 / 16777216) (13421773 / 134217728))
         (as_tensor (Number (Fin 0))) = Ok r1 \<and>
       cdf_f32 (scalar_triangular 0 (11744051 / 16777216) (13421773 / 134217728))
         (as_tensor (Number (Fin (13421773 / 134217728)))) = Ok r2 \<and>
       elt r1 [] = Fin 0 \<and> elt r2 [] = Fin (9586981 / 67108864) \<and> elt r1 [] \<le> elt r2 [])"
proof -
  let ?d = "scalar_triangular 0 (11744051 / 16777216) (13421773 / 134217728)"
  have w: "well_formed ?d" by (rule scalar_well_formed)
  have b: "broadcast_shape (shape (as_tensor (Number x))) (batch_shape ?d) = Some []" for x
    by (simp add: scalar_triangular_at broadcast_shape_same)
  have "\<exists>r1 r2. cdf_f32 ?d (as_tensor (Number (Fin 0))) = Ok r1 \<and>
       cdf_f32 ?d (as_tensor (Number (Fin (13421773 / 134217728)))) = Ok r2 \<and>
       (elt r1 [] = NaN \<or> elt r2 [] = NaN \<or> elt r1 [] \<le> elt r2 [])"
    by (rule cdf_f32_nondecreasing_on_legs [OF w b b, where i = "[]" and l = 0
          and h = "11744051 / 16777216" and p = "13421773 / 134217728"
          and ?x1.0 = 0 and ?x2.0 = "13421773 / 134217728"])
      (simp_all add: scalar_triangular_at value_at_def)
  moreover have "elt_of (cdf_f32 ?d (as_tensor (Number (Fin 0)))) [] = Some (Fin 0)"
    by (simp add: cdf_f32_scalar_record cdf_elem_f32_def)
  moreover have "elt_of (cdf_f32 ?d (as_tensor (Number (Fin (13421773 / 134217728))))) [] =
      Some (Fin (9586981 / 67108864))"
    by (simp add: cdf_f32_scalar_record cdf_elem_f32_at_peak)
  ultimately show ?thesis
    using w by (auto simp: elt_of_def)
qed

text \<open>
  Across the peak the two legs are rounded differently: for \<open>Triangular(0, 0.7, 0.1)\<close>
  in binary32, \<open>cdf\<close> at the peak is \<open>9586981 / 2^26\<close> and at the next binary32 number
  it is \<open>9586980 / 2^26\<close>. For \<open>Triangular(0, 2^66, 2^65)\<close> the square of the value
  \<open>2^64\<close> and the denominator overflow, and \<open>cdf\<close> is NaN.
\<close>

theorem cdf_f32_decreases_across_peak:
  "representable_f32 (Fin (11744051 / 16777216)) \<and>
   representable_f32 (Fin (13421773 / 134217728)) \<and>
   representable_f32 (Fin (6710887 / 67108864)) \<and>
   Fin (13421773 / 134217728) \<le> Fin (6710887 / 67108864) \<and>
   Fin (6710887 / 67108864) \<le> Fin (11744051 / 16777216) \<and>
   elt_of (cdf_f32 (scalar_triangular 0 (11744051 / 16777216) (13421773 / 134217728))
             (as_tensor (Number (Fin (13421773 / 134217728))))) [] =
     Some (Fin (9586981 / 67108864)) \<and>
   elt_of (cdf_f32 (scalar_triangular 0 (11744051 / 16777216) (13421773 / 134217728))
             (as_tensor (Number (Fin (6710887 / 67108864))))) [] =
     Some (Fin (9586980 / 67108864)) \<and>
   \<not> Fin (9586981 / 67108864) \<le> Fin (9586980 / 67108864) \<and>
   elt_of (cdf_f32 (scalar_triangular 0 (2 ^ 66) (2 ^ 65)) (as_tensor (Number (Fin (2 ^ 64))))) [] =
     Some NaN"
  using cdf_elem_f32_overflow
  by (simp add: representable_examples cdf_f32_scalar_record cdf_elem_f32_at_peak
      cdf_elem_f32_after_peak)

subsection \<open>C7: expand\<close>

text \<open>
  C7. The claim is that \<open>expand\<close> returns a new instance with the parameters
  broadcast to the new batch shape and with the validation flag of the original.
  When the method of the base class raises \<open>NotImplementedError\<close>, the new instance
  has the expanded parameters (lemma \<open>expand_fallback\<close>), but its attribute
  \<open>_validate_args\<close> is the entry of the original's own \<open>__dict__\<close>, which is \<open>None\<close>
  when the original was built without \<open>validate_args\<close>. With validation enabled by
  the default of the class, \<open>Triangular(0., 1., 0.5)\<close> validates and its expansion
  to shape \<open>[3]\<close> does not (lemma \<open>expand_flag\<close> gives the general condition).
\<close>

theorem expand_drops_default_validation:
  "Triangular_init True (Number (Fin 0)) (Number (Fin 1)) (Number (Fin (1 / 2))) PyNone =
     Inr (scalar_triangular 0 1 (1 / 2)) \<and>
   truthy (get_validate_args True (scalar_triangular 0 1 (1 / 2))) \<and>
   (\<exists>r. expand (\<lambda>self bs. (Inl NotImplementedError :: error + unit)) True
          (scalar_triangular 0 1 (1 / 2)) [3] = Inr (Inr r) \<and>
        shape (low r) = [3] \<and> dict_validate_args r = Some PyNone \<and>
        \<not> truthy (get_validate_args True r))"
proof -
  let ?d = "scalar_triangular 0 1 (1 / 2)"
  have w: "well_formed ?d"
    by (simp add: well_formed_def scalar_triangular_def)
  have e: "expandable (batch_shape ?d) [3]"
    by (simp add: scalar_triangular_at expandable_Nil)
  have "expand (\<lambda>self bs. (Inl NotImplementedError :: error + unit)) True ?d [3] =
     Inr (Inr \<lparr>low = expand_to (low ?d) [3], high = expand_to (high ?d) [3],
               peak = expand_to (peak ?d) [3], batch_shape = [3], event_shape = [],
               dict_validate_args = Some (dict_get_validate_args ?d)\<rparr>)"
    using expand_fallback [where super_expand = "\<lambda>self bs. (Inl NotImplementedError :: error + unit)"
        and d = ?d and bs = "[3]" and dflt = True, OF _ w e]
    by simp
  moreover have "dict_get_validate_args ?d = PyNone"
    by (simp add: dict_get_validate_args_def scalar_triangular_def)
  moreover have "truthy (get_validate_args True ?d)"
    by (simp add: get_validate_args_def scalar_triangular_def)
  ultimately show ?thesis
    by (simp add: Triangular_init_scalar get_validate_args_def expand_to_def)
qed

subsection \<open>C8: peak equal to low, draw 0\<close>

text \<open>
  C8. The claim is that with \<open>peak = low\<close> and a draw 0 the sampling transform does
  not fail and evaluates to exactly \<open>low\<close>. In binary32, \<open>rsample\<close> returns a tensor,
  the second formula is selected, and the element is
  \<open>high - sqrt ((1 - 0) * (high - low) * (high - low))\<close> with every operation rounded.
  It is exactly \<open>low\<close> when \<open>low < high\<close> and \<open>high - low\<close> and its square are binary32
  numbers, so that nothing is rounded.
\<close>

theorem rsample_f32_peak_at_low:
  assumes "well_formed d"
    and "valid_index (sample_shape @ batch_shape d) i"
    and "peak_at d i = low_at d i" and "rand i = Fin 0"
  shows "\<exists>r. rsample_f32 d sample_shape rand = Ok r \<and>
     elt r i =
       sub_f32 (high_at d i)
         (sqrt_f32 (mul_f32 (mul_f32 (sub_f32 (Fin 1) (Fin 0))
                                     (sub_f32 (high_at d i) (low_at d i)))
                            (sub_f32 (high_at d i) (low_at d i)))) \<and>
     (low_at d i = Fin a \<and> high_at d i = Fin b \<and> a < b \<and> representable_f32 (Fin a) \<and>
      representable_f32 (Fin (b - a)) \<and> representable_f32 (Fin ((b - a) * (b - a)))
        \<longrightarrow> elt r i = low_at d i)"
proof -
  from rsample_f32_at [OF assms(1), of sample_shape rand] obtain r where
    r: "rsample_f32 d sample_shape rand = Ok r"
    "\<And>i. valid_index (sample_shape @ batch_shape d) i \<Longrightarrow>
        elt r i = rsample_elem_f32 (low_at d i) (high_at d i) (peak_at d i) (rand i)"
    by blast
  have e: "elt r i = rsample_elem_f32 (low_at d i) (high_at d i) (low_at d i) (Fin 0)"
    using r(2) [OF assms(2)] assms(3,4) by simp
  show ?thesis
    using r(1) e rsample_elem_f32_exact [of a b]
    by (auto simp: rsample_elem_f32_second)
qed

theorem rsample_f32_peak_at_low_witness:
  "well_formed (scalar_triangular 0 1 0) \<and>
   valid_index ([] @ batch_shape (scalar_triangular 0 1 0)) [] \<and>
   (0::real) < 1 \<and> representable_f32 (Fin 0) \<and> representable_f32 (Fin (1 - 0)) \<and>
   representable_f32 (Fin ((1 - 0) * (1 - 0))) \<and>
   (\<exists>r. rsample_f32 (scalar_triangular 0 1 0) [] (constant_draws (Fin 0)) = Ok r \<and>
        elt r [] = Fin 0)"
proof -
  let ?d = "scalar_triangular 0 1 0"
  have w: "well_formed ?d" by (rule scalar_well_formed)
  have i: "valid_index ([] @ batch_shape ?d) []"
    by (simp add: valid_index_def scalar_triangular_at)
  have p: "peak_at ?d [] = low_at ?d []" "constant_draws (Fin 0) [] = Fin 0"
    by (simp_all add: scalar_triangular_at constant_draws_def)
  show ?thesis
    using w i rsample_f32_peak_at_low [where d = ?d and sample_shape = "[]" and i = "[]"
        and rand = "constant_draws (Fin 0)" and a = 0 and b = 1, OF w i p]
    by (auto simp: scalar_triangular_at representable_examples)
qed

text \<open>
  For \<open>Triangular(0.1, 0.4, 0.1)\<close> in binary32 the difference \<open>high - low\<close> is rounded
  up, and the result is \<open>13421772 / 2^27\<close>, the binary32 number just below \<open>low\<close>.
\<close>

theorem rsample_f32_ulp_below_low:
  "representable_f32 (Fin (13421773 / 134217728)) \<and>
   representable_f32 (Fin (13421773 / 33554432)) \<and>
   Fin (13421773 / 134217728) < Fin (13421773 / 33554432) \<and>
   elt_of (rsample_f32
             (scalar_triangular (13421773 / 134217728) (13421773 / 33554432)
                (13421773 / 134217728)) [] (constant_draws (Fin 0))) [] =
     Some (Fin (13421772 / 134217728)) \<and>
   Fin (13421772 / 134217728) \<noteq> Fin (13421773 / 134217728)"
  by (simp add: representable_examples rsample_f32_scalar rsample_elem_f32_ulp)

subsection \<open>C9: samples lie in the support\<close>




subsection \<open>C10: log_prob at the ends of the support\<close>

text \<open>
  C10. For finite valid parameters with \<open>peak > low\<close>, \<open>log_prob\<close> at
  \<open>value = low\<close> is not the floor \<open>log (1e-6)\<close>: the first inside branch is selected
  and gives \<open>log 2 + log 0 - log (high - low) - log (peak - low)\<close>, which is minus
  infinity. Symmetrically, with \<open>peak < high\<close>, \<open>log_prob\<close> at \<open>value = high\<close> is
  minus infinity.
\<close>

theorem log_prob_at_bounds:
  assumes "well_formed d"
    and "broadcast_shape (shape v) (batch_shape d) = Some s"
    and "low_at d i = Fin l" and "high_at d i = Fin h" and "peak_at d i = Fin p"
    and "l \<le> p" and "p \<le> h" and "l < h"
  shows "\<exists>r. log_prob d v = Ok r \<and>
     (l < p \<and> value_at v i = low_at d i \<longrightarrow>
        elt r i = fl_log (Fin 2) + fl_log (Fin 0) - fl_log (high_at d i - low_at d i)
                  - fl_log (peak_at d i - low_at d i) \<and>
        elt r i = NInf \<and> elt r i \<noteq> fl_log (Fin (1 / 1000000))) \<and>
     (p < h \<and> value_at v i = high_at d i \<longrightarrow>
        elt r i = fl_log (Fin 2) + fl_log (Fin 0) - fl_log (high_at d i - low_at d i)
                  - fl_log (high_at d i - peak_at d i) \<and>
        elt r i = NInf \<and> elt r i \<noteq> fl_log (Fin (1 / 1000000)))"
proof -
  from log_prob_at [OF assms(1,2)] obtain r where r: "log_prob d v = Ok r"
    "\<And>i. elt r i = log_prob_elem (low_at d i) (high_at d i) (peak_at d i) (value_at v i)"
    by blast
  have lo: "l < p \<Longrightarrow> value_at v i = Fin l \<Longrightarrow> elt r i = NInf"
    using log_prob_elem_low [of l p h] assms(3-8) by (simp add: r(2))
  have hi: "p < h \<Longrightarrow> value_at v i = Fin h \<Longrightarrow> elt r i = NInf"
    using log_prob_elem_high [of l p h] assms(3-8) by (simp add: r(2))
  show ?thesis
    using r(1) lo hi assms(3-8) by (auto simp: minus_fl_def)
qed

theorem log_prob_at_bounds_witness:
  "well_formed (scalar_triangular 0 1 (1 / 2)) \<and> (0::real) \<le> 1 / 2 \<and> (1 / 2 :: real) \<le> 1 \<and>
   (0::real) < 1 \<and> (0::real) < 1 / 2 \<and> (1 / 2 :: real) < 1 \<and>
   (\<exists>r. log_prob (scalar_triangular 0 1 (1 / 2)) (as_tensor (Number (Fin 0))) = Ok r \<and>
        elt r [] = NInf) \<and>
   (\<exists>r. log_prob (scalar_triangular 0 1 (1 / 2)) (as_tensor (Number (Fin 1))) = Ok r \<and>
        elt r [] = NInf)"
proof -
  let ?d = "scalar_triangular 0 1 (1 / 2)"
  have w: "well_formed ?d"
    by (simp add: well_formed_def scalar_triangular_def)
  have b: "broadcast_shape (shape (as_tensor (Number x))) (batch_shape ?d) = Some []" for x
    by (simp add: scalar_triangular_at broadcast_shape_same)
  have p: "low_at ?d [] = Fin 0" "high_at ?d [] = Fin 1" "peak_at ?d [] = Fin (1 / 2)"
    "(0::real) \<le> 1 / 2" "(1 / 2 :: real) \<le> 1" "(0::real) < 1"
    by (simp_all add: scalar_triangular_at)
  show ?thesis
    using w log_prob_at_bounds [OF w b p, of "Fin 0"] log_prob_at_bounds [OF w b p, of "Fin 1"]
    by (auto simp: scalar_triangular_at value_at_def bproj_Nil)
qed

end
